theory Spec2Isabelle
  imports Complex_Main "HOL-Library.Log_Nat"
begin

section \<open>Kaspi statement parser: strings, errors and tables\<close>

text \<open>
  A Python \<open>str\<close> is a sequence of Unicode code points; equality of two strings is
  equality of these sequences, with no normalisation and no case folding.  A code point is
  a natural number, so that the Cyrillic and Kazakh header names and the tenge sign
  (U+20B8) are single characters, as they are for Python.
\<close>

type_synonym pystr = "nat list"

definition ascii :: "string \<Rightarrow> pystr" where
  "ascii s = map of_char s"

text \<open>
  The exceptions of the program, one constructor for each place that raises.  All of them
  are subclasses of Python's \<open>Exception\<close>, which is what both \<open>except\<close> clauses of
  the source catch.
\<close>

datatype py_error =
    FormatError           \<comment> \<open>\<open>ValueError("Failed to parse amount: ...")\<close>, line 37\<close>
  | CurrencyMismatch      \<comment> \<open>\<open>ValueError("Unexpected currency: ...")\<close>, line 39\<close>
  | FloatConversionError  \<comment> \<open>\<open>ValueError\<close> of \<open>float(...)\<close>, line 41\<close>
  | UnpackError           \<comment> \<open>\<open>ValueError\<close> of the four-way destructuring, line 47\<close>
  | DateFormatError       \<comment> \<open>\<open>ValueError\<close> of \<open>strptime\<close>: no match, or data remains\<close>
  | DateRangeError        \<comment> \<open>\<open>ValueError\<close> of \<open>strptime\<close>: day out of range for month\<close>
  | TypeError             \<comment> \<open>\<open>strptime(None, ...)\<close>\<close>
  | AttributeError        \<comment> \<open>\<open>None.split\<close> in \<open>parse_amount\<close>\<close>
  | IndexError            \<comment> \<open>\<open>table[0]\<close> of a table without rows, line 65\<close>
  | HeaderNotFound        \<comment> \<open>\<open>ValueError("Failed to find the transaction table header")\<close>, line 69\<close>
  | OverflowError         \<comment> \<open>\<open>round\<close> of an infinity (export)\<close>
  | NanRoundError         \<comment> \<open>\<open>ValueError\<close> of \<open>round\<close> of a NaN (export)\<close>
  | UnicodeEncodeError    \<comment> \<open>writing a string with a surrogate to the UTF-8 file (export)\<close>
  | ExternalError nat     \<comment> \<open>any exception of the PDF library (opening, pages, table extraction)\<close>

text \<open>
  The PDF library hands out cells that are a string or \<open>None\<close>, rows that are lists of
  cells and tables that are lists of rows.  \<open>page.extract_tables()\<close> returns the tables
  of a page or raises; opening the file and reading \<open>pdf.pages\<close> gives the pages or
  raises.
\<close>

type_synonym cell = "pystr option"
type_synonym row = "cell list"
type_synonym table = "row list"
type_synonym page = "py_error + table list"
type_synonym document = "py_error + page list"

subsection \<open>Header signatures\<close>

definition TRANSACTION_TABLE_HEADER_VARIANTS :: "row list" where
  "TRANSACTION_TABLE_HEADER_VARIANTS =
    [ [Some (ascii ''Date''), Some (ascii ''Amount''), Some (ascii ''Transaction''),
       Some (ascii ''Details'')],
      [Some [0x414, 0x430, 0x442, 0x430],
       Some [0x421, 0x443, 0x43C, 0x43C, 0x430],
       Some [0x41E, 0x43F, 0x435, 0x440, 0x430, 0x446, 0x438, 0x44F],
       Some [0x414, 0x435, 0x442, 0x430, 0x43B, 0x438]],
      [Some [0x41A, 0x4AF, 0x43D, 0x456],
       Some [0x421, 0x43E, 0x43C, 0x430, 0x441, 0x44B],
       Some [0x41E, 0x43F, 0x435, 0x440, 0x430, 0x446, 0x438, 0x44F],
       Some [0x422, 0x43E, 0x43B, 0x44B, 0x493, 0x44B, 0x440, 0x430, 0x49B]] ]"

text \<open>
  The test \<open>table[0] in TRANSACTION_TABLE_HEADER_VARIANTS\<close> of line 65: indexing a table
  without rows raises \<open>IndexError\<close>, otherwise the first row is compared with each
  signature by list equality.
\<close>

definition is_header_table :: "table \<Rightarrow> py_error + bool" where
  "is_header_table t =
     (case t of
        [] \<Rightarrow> Inl IndexError
      | r # _ \<Rightarrow> Inr (r \<in> set TRANSACTION_TABLE_HEADER_VARIANTS))"

subsection \<open>The table stream\<close>

text \<open>
  \<open>get_transaction_tables\<close> is a generator.  Its consumer never raises into it, so a run is
  described by the tables it yields, in order, and by the way it ends: \<open>None\<close> when the
  generator is exhausted, \<open>Some e\<close> when it raises \<open>e\<close> after the last yield.

  \<open>tables_loop\<close> is the inner loop over the tables of one page; it also returns the flag
  \<open>header_is_found\<close>.  \<open>pages_loop\<close> is the outer loop with the final check of line 68.
\<close>

fun tables_loop :: "bool \<Rightarrow> table list \<Rightarrow> bool \<times> table list \<times> py_error option" where
  "tables_loop header_is_found [] = (header_is_found, [], None)"
| "tables_loop header_is_found (t # ts) =
     (if header_is_found then
        (case tables_loop header_is_found ts of (f, ys, exc) \<Rightarrow> (f, t # ys, exc))
      else
        (case is_header_table t of
           Inl e \<Rightarrow> (header_is_found, [], Some e)
         | Inr True \<Rightarrow> (case tables_loop True ts of (f, ys, exc) \<Rightarrow> (f, tl t # ys, exc))
         | Inr False \<Rightarrow> tables_loop header_is_found ts))"

fun pages_loop :: "bool \<Rightarrow> page list \<Rightarrow> table list \<times> py_error option" where
  "pages_loop header_is_found [] =
     ([], if \<not> header_is_found then Some HeaderNotFound else None)"
| "pages_loop header_is_found (p # ps) =
     (case p of
        Inl e \<Rightarrow> ([], Some e)
      | Inr ts \<Rightarrow>
          (case tables_loop header_is_found ts of
             (f, ys, Some e) \<Rightarrow> (ys, Some e)
           | (f, ys, None) \<Rightarrow> (case pages_loop f ps of (zs, exc) \<Rightarrow> (ys @ zs, exc))))"

definition get_transaction_tables :: "page list \<Rightarrow> table list \<times> py_error option" where
  "get_transaction_tables pages = pages_loop False pages"


section \<open>The amount parser\<close>

subsection \<open>Character classes of the \<open>re\<close> module\<close>

text \<open>
  For a \<open>str\<close> pattern, \<open>\d\<close> matches every Unicode decimal digit (general category
  Nd) and \<open>\s\<close> every Unicode whitespace character; \<open>float\<close> and \<open>int\<close> read the same
  decimal digits.  The decimal digits come in runs of ten consecutive code points with the
  values 0 to 9; the list holds the first code point of each run (Unicode 14, the table of
  CPython 3.11).
\<close>

definition decimal_run_starts :: "nat list" where
  "decimal_run_starts =
    [48, 1632, 1776, 1984, 2406, 2534, 2662, 2790, 2918, 3046, 3174, 3302, 3430, 3558,
     3664, 3792, 3872, 4160, 4240, 6112, 6160, 6470, 6608, 6784, 6800, 6992, 7088, 7232,
     7248, 42528, 43216, 43264, 43472, 43504, 43600, 44016, 65296, 66720, 68912, 69734,
     69872, 69942, 70096, 70384, 70736, 70864, 71248, 71360, 71472, 71904, 72016, 72784,
     73040, 73120, 92768, 92864, 93008, 120782, 120792, 120802, 120812, 120822, 123200,
     123632, 125264, 130032]"

definition decimal_value :: "nat \<Rightarrow> nat option" where
  "decimal_value c =
     (case find (\<lambda>s. s \<le> c \<and> c < s + 10) decimal_run_starts of
        None \<Rightarrow> None
      | Some s \<Rightarrow> Some (c - s))"

definition is_digit :: "nat \<Rightarrow> bool" where
  "is_digit c = (decimal_value c \<noteq> None)"

definition is_space :: "nat \<Rightarrow> bool" where
  "is_space c =
     (c \<in> set [9, 10, 11, 12, 13, 28, 29, 30, 31, 32, 133, 160, 5760]
      \<or> (8192 \<le> c \<and> c \<le> 8202)
      \<or> c \<in> set [8232, 8233, 8239, 8287, 12288])"

subsection \<open>Backtracking matchers\<close>

text \<open>
  A regular expression is read as a function from the rest of the subject to the list of
  its possible matches, each with what is left after it, in the order in which the
  backtracking engine of \<open>re\<close> tries them.  \<open>re.match\<close> returns the first element of the
  list for the whole pattern.
\<close>

type_synonym 'a matcher = "pystr \<Rightarrow> ('a \<times> pystr) list"

fun cclass :: "(nat \<Rightarrow> bool) \<Rightarrow> pystr matcher" where
  "cclass P [] = []"
| "cclass P (c # cs) = (if P c then [([c], cs)] else [])"

text \<open>\<open>X*\<close> for a character class \<open>X\<close>, greedy: the longest run first, the empty match last.\<close>

fun cstar :: "(nat \<Rightarrow> bool) \<Rightarrow> pystr matcher" where
  "cstar P [] = [([], [])]"
| "cstar P (c # cs) =
     (if P c then map (\<lambda>(m, r). (c # m, r)) (cstar P cs) @ [([], c # cs)]
      else [([], c # cs)])"

text \<open>\<open>X+\<close>, greedy: a character of the class, then \<open>X*\<close>.\<close>

fun cplus :: "(nat \<Rightarrow> bool) \<Rightarrow> pystr matcher" where
  "cplus P [] = []"
| "cplus P (c # cs) = (if P c then map (\<lambda>(m, r). (c # m, r)) (cstar P cs) else [])"

text \<open>
  \<open>$\<close> without the multi-line flag matches at the end of the subject and before a
  newline that ends the subject.
\<close>

definition dollar :: "pystr \<Rightarrow> bool" where
  "dollar s = (s = [] \<or> s = [10])"

subsection \<open>The amount pattern\<close>

text \<open>
  \<open>AMOUNT_PATTERN = r"^(?P<sign>[+-])\s*(?P<amount>[\d, ]+) (?P<currency>\S+)$"\<close>.
  A match is the triple of its groups \<open>sign\<close>, \<open>amount\<close> and \<open>currency\<close>.
  The code points: \<open>+\<close> 43, \<open>-\<close> 45, comma 44, full stop 46, space 32, newline 10.
\<close>

definition amount_class :: "nat \<Rightarrow> bool" where
  "amount_class c = (is_digit c \<or> c = 44 \<or> c = 32)"

definition AMOUNT_PATTERN :: "(pystr \<times> pystr \<times> pystr) matcher" where
  "AMOUNT_PATTERN s =
     [((sign, amount, currency), r5).
        (sign, r1) \<leftarrow> cclass (\<lambda>c. c = 43 \<or> c = 45) s,
        (ws, r2) \<leftarrow> cstar is_space r1,
        (amount, r3) \<leftarrow> cplus amount_class r2,
        (sp, r4) \<leftarrow> cclass (\<lambda>c. c = 32) r3,
        (currency, r5) \<leftarrow> cplus (\<lambda>c. \<not> is_space c) r4,
        dollar r5]"

text \<open>
  The shape of an amount line in words: a sign \<open>c\<close> (\<open>+\<close> or \<open>-\<close>), optional
  white space \<open>w\<close>, a literal \<open>a\<close> of digits, commas and spaces, a single space, and a
  currency token \<open>cur\<close> without white space, to the end of the line.
\<close>

definition amount_shape :: "pystr \<Rightarrow> nat \<Rightarrow> pystr \<Rightarrow> pystr \<Rightarrow> pystr \<Rightarrow> bool" where
  "amount_shape line c w a cur \<longleftrightarrow>
     line = c # w @ a @ [32] @ cur \<and> (c = 43 \<or> c = 45)
     \<and> (\<forall>x\<in>set w. is_space x)
     \<and> a \<noteq> [] \<and> (\<forall>x\<in>set a. amount_class x)
     \<and> cur \<noteq> [] \<and> (\<forall>x\<in>set cur. \<not> is_space x)"

definition re_match :: "'a matcher \<Rightarrow> pystr \<Rightarrow> 'a option" where
  "re_match pat s = (case pat s of [] \<Rightarrow> None | (g, r) # _ \<Rightarrow> Some g)"

definition EXPECTED_CURRENCY :: pystr where
  "EXPECTED_CURRENCY = [0x20B8]"


subsection \<open>Floating-point numbers\<close>

text \<open>
  A Python \<open>float\<close> is an IEEE 754 binary64 number: a finite value, which is a rational
  number, an infinity or a NaN.  The two zeros are one value here: they are equal for
  \<open>==\<close>, \<open>>\<close> and \<open>round\<close>, and nothing else is observed of a float in this program.
\<close>

datatype pyfloat = Finite rat | PosInf | NegInf | NaN

definition pow2 :: "int \<Rightarrow> rat" where
  "pow2 e = (if 0 \<le> e then 2 ^ nat e else 1 / 2 ^ nat (- e))"

text \<open>For \<open>q > 0\<close>, the exponent \<open>e\<close> with \<open>2\<^sup>e \<le> q < 2\<^sup>e\<^sup>+\<^sup>1\<close>.\<close>

definition floor_log2 :: "rat \<Rightarrow> int" where
  "floor_log2 q = (if 1 \<le> q then bitlen \<lfloor>q\<rfloor> - 1 else - bitlen (\<lceil>1 / q\<rceil> - 1))"

text \<open>Rounding to the nearest integer, a tie to the even one.\<close>

definition round_half_even :: "rat \<Rightarrow> int" where
  "round_half_even q =
     (let f = \<lfloor>q\<rfloor>; r = q - of_int f in
      if r < 1 / 2 then f
      else if 1 / 2 < r then f + 1
      else if even f then f else f + 1)"

text \<open>
  Rounding a rational number to binary64, to nearest with ties to even: 53 significant
  bits, the least exponent of the last bit is \<open>-1074\<close> (subnormal numbers), and a result
  of magnitude \<open>2\<^sup>1\<^sup>0\<^sup>2\<^sup>4\<close> or more is an infinity.  This is the result of \<open>float\<close> on a
  decimal literal and of \<open>+\<close> on the exact sum of two floats.
\<close>

definition round_to_double :: "rat \<Rightarrow> pyfloat" where
  "round_to_double q =
     (if q = 0 then Finite 0
      else
        let a = \<bar>q\<bar>;
            x = max (floor_log2 a - 52) (- 1074);
            r = of_int (round_half_even (a / pow2 x)) * pow2 x
        in if pow2 1024 \<le> r then (if 0 < q then PosInf else NegInf)
           else Finite (if 0 < q then r else - r))"

fun float_neg :: "pyfloat \<Rightarrow> pyfloat" where
  "float_neg (Finite q) = Finite (- q)"
| "float_neg PosInf = NegInf"
| "float_neg NegInf = PosInf"
| "float_neg NaN = NaN"

fun float_add :: "pyfloat \<Rightarrow> pyfloat \<Rightarrow> pyfloat" where
  "float_add (Finite a) (Finite b) = round_to_double (a + b)"
| "float_add NaN _ = NaN"
| "float_add _ NaN = NaN"
| "float_add PosInf NegInf = NaN"
| "float_add NegInf PosInf = NaN"
| "float_add PosInf _ = PosInf"
| "float_add _ PosInf = PosInf"
| "float_add NegInf _ = NegInf"
| "float_add _ NegInf = NegInf"

text \<open>The comparisons \<open>x > 0\<close>, \<open>x >= 0\<close>, \<open>x <= 0\<close> and \<open>x == y\<close>; a NaN compares false.\<close>

fun float_gt0 :: "pyfloat \<Rightarrow> bool" where
  "float_gt0 (Finite q) = (0 < q)"
| "float_gt0 PosInf = True"
| "float_gt0 NegInf = False"
| "float_gt0 NaN = False"

fun float_ge0 :: "pyfloat \<Rightarrow> bool" where
  "float_ge0 (Finite q) = (0 \<le> q)"
| "float_ge0 PosInf = True"
| "float_ge0 NegInf = False"
| "float_ge0 NaN = False"

fun float_le0 :: "pyfloat \<Rightarrow> bool" where
  "float_le0 (Finite q) = (q \<le> 0)"
| "float_le0 PosInf = False"
| "float_le0 NegInf = True"
| "float_le0 NaN = False"

definition float_eq :: "pyfloat \<Rightarrow> pyfloat \<Rightarrow> bool" where
  "float_eq x y = (x \<noteq> NaN \<and> x = y)"


subsection \<open>Reading numbers\<close>

text \<open>The value of a string of decimal digits; \<open>None\<close> if a character is not one.\<close>

definition digits_value :: "pystr \<Rightarrow> nat option" where
  "digits_value ds = map_option (foldl (\<lambda>a d. 10 * a + d) 0) (those (map decimal_value ds))"

text \<open>
  \<open>float(s)\<close> for a string \<open>s\<close> of decimal digits and full stops (code point 46), which
  is all that \<open>parse_amount\<close> passes to it: such a string is a number if it has a digit
  and at most one full stop, and the result is the float nearest to the decimal number.
  \<open>None\<close> stands for the \<open>ValueError\<close> of \<open>float\<close>.
\<close>

definition py_float :: "pystr \<Rightarrow> pyfloat option" where
  "py_float s =
     (let ip = takeWhile (\<lambda>c. c \<noteq> 46) s;
          fp = drop 1 (dropWhile (\<lambda>c. c \<noteq> 46) s)
      in if ip @ fp = [] then None
         else (case digits_value (ip @ fp) of
                 None \<Rightarrow> None
               | Some n \<Rightarrow> Some (round_to_double (of_nat n / 10 ^ length fp))))"

subsection \<open>\<open>parse_amount\<close>\<close>

text \<open>
  \<open>amount_str.split('\n')[0]\<close> is the text before the first newline;
  \<open>replace(",", ".")\<close> turns each comma into a full stop and \<open>replace(" ", "")\<close>
  removes the spaces.  A cell that is \<open>None\<close> has no \<open>split\<close>.
\<close>

definition split_first_line :: "pystr \<Rightarrow> pystr" where
  "split_first_line str = takeWhile (\<lambda>c. c \<noteq> 10) str"

abbreviation normalised :: "pystr \<Rightarrow> pystr" where
  "normalised a \<equiv> filter (\<lambda>c. c \<noteq> 32) (map (\<lambda>c. if c = 44 then 46 else c) a)"

definition parse_amount :: "cell \<Rightarrow> py_error + pyfloat" where
  "parse_amount amount_str =
     (case amount_str of
        None \<Rightarrow> Inl AttributeError
      | Some str \<Rightarrow>
          (let first_line = split_first_line str in
           case re_match AMOUNT_PATTERN first_line of
             None \<Rightarrow> Inl FormatError
           | Some (sign, amount, currency) \<Rightarrow>
               if currency \<noteq> EXPECTED_CURRENCY then Inl CurrencyMismatch
               else
                 (case py_float (normalised amount) of
                    None \<Rightarrow> Inl FloatConversionError
                  | Some a \<Rightarrow> Inr (if sign = [43] then a else float_neg a))))"


section \<open>The transaction builder\<close>

subsection \<open>Dates\<close>

text \<open>
  \<open>datetime.datetime.strptime(date, "%d.%m.%y")\<close> compiles the format into the regular
  expression
  \<open>(?P<d>3[0-1]|[1-2]\d|0[1-9]|[1-9]| [1-9])\.(?P<m>1[0-2]|0[1-9]|[1-9])\.(?P<y>\d\d)\<close>,
  matches it at the start of the string, and raises \<open>ValueError\<close> if there is no match
  or if the match does not reach the end of the string.  The code points: \<open>0\<close> to \<open>9\<close>
  are 48 to 57.
\<close>

definition lit :: "nat \<Rightarrow> pystr matcher" where
  "lit c = cclass (\<lambda>x. x = c)"

definition crange :: "nat \<Rightarrow> nat \<Rightarrow> pystr matcher" where
  "crange a b = cclass (\<lambda>x. a \<le> x \<and> x \<le> b)"

definition seq2 :: "pystr matcher \<Rightarrow> pystr matcher \<Rightarrow> pystr matcher" where
  "seq2 p q s = [(m1 @ m2, r2). (m1, r1) \<leftarrow> p s, (m2, r2) \<leftarrow> q r1]"

definition alt :: "pystr matcher list \<Rightarrow> pystr matcher" where
  "alt ps s = concat (map (\<lambda>p. p s) ps)"

definition day_pattern :: "pystr matcher" where
  "day_pattern =
     alt [seq2 (lit 51) (crange 48 49), seq2 (crange 49 50) (cclass is_digit),
          seq2 (lit 48) (crange 49 57), crange 49 57, seq2 (lit 32) (crange 49 57)]"

definition month_pattern :: "pystr matcher" where
  "month_pattern = alt [seq2 (lit 49) (crange 48 50), seq2 (lit 48) (crange 49 57), crange 49 57]"

definition year_pattern :: "pystr matcher" where
  "year_pattern = seq2 (cclass is_digit) (cclass is_digit)"

definition DATE_PATTERN :: "(pystr \<times> pystr \<times> pystr) matcher" where
  "DATE_PATTERN s =
     [((d, m, y), r5).
        (d, r1) \<leftarrow> day_pattern s,
        (p1, r2) \<leftarrow> lit 46 r1,
        (m, r3) \<leftarrow> month_pattern r2,
        (p2, r4) \<leftarrow> lit 46 r3,
        (y, r5) \<leftarrow> year_pattern r4]"

text \<open>
  \<open>int(s)\<close> on a group of the date pattern: decimal digits after an optional space (the
  group \<open>d\<close> may begin with one, and \<open>int\<close> strips white space).
\<close>

definition py_int :: "pystr \<Rightarrow> nat option" where
  "py_int s = digits_value (dropWhile is_space s)"

record pydate =
  year :: nat
  month :: nat
  day :: nat

definition is_leap :: "nat \<Rightarrow> bool" where
  "is_leap y = (y mod 4 = 0 \<and> (y mod 100 \<noteq> 0 \<or> y mod 400 = 0))"

definition days_in_month :: "nat \<Rightarrow> nat \<Rightarrow> nat" where
  "days_in_month y m =
     (if m = 2 then (if is_leap y then 29 else 28)
      else if m \<in> set [4, 6, 9, 11] then 30 else 31)"

text \<open>
  A two-digit year up to 68 is in the century of 2000, a later one in that of 1900.  The
  date constructor raises \<open>ValueError\<close> for a day that the month does not have.  The
  result is a \<open>datetime\<close> at midnight, of which only the date is ever read.
\<close>

definition strptime :: "cell \<Rightarrow> py_error + pydate" where
  "strptime date_string =
     (case date_string of
        None \<Rightarrow> Inl TypeError
      | Some str \<Rightarrow>
          (case DATE_PATTERN str of
             [] \<Rightarrow> Inl DateFormatError
           | ((d, m, y), rest) # _ \<Rightarrow>
               if rest \<noteq> [] then Inl DateFormatError
               else
                 (case (py_int y, py_int m, py_int d) of
                    (Some yy, Some mm, Some dd) \<Rightarrow>
                      (let yyyy = (if yy \<le> 68 then yy + 2000 else yy + 1900) in
                       if 1 \<le> dd \<and> dd \<le> days_in_month yyyy mm
                       then Inr \<lparr>year = yyyy, month = mm, day = dd\<rparr>
                       else Inl DateRangeError)
                  | _ \<Rightarrow> Inl DateFormatError)))"

subsection \<open>Transactions\<close>

record transaction =
  date :: pydate
  payee :: cell
  memo :: pystr
  amount :: pyfloat

text \<open>
  The body of the \<open>try\<close> of \<open>get_transactions\<close> for one row: the destructuring into
  four cells, then the date, then the amount (the keyword arguments are evaluated in this
  order).  Formatting the transaction for the log raises nothing.
\<close>

definition make_transaction :: "row \<Rightarrow> py_error + transaction" where
  "make_transaction line =
     (case line of
        [date_cell, amount_cell, operation_type, details] \<Rightarrow>
          (case strptime date_cell of
             Inl e \<Rightarrow> Inl e
           | Inr d \<Rightarrow>
               (case parse_amount amount_cell of
                  Inl e \<Rightarrow> Inl e
                | Inr a \<Rightarrow> Inr \<lparr>date = d, payee = details, memo = [], amount = a\<rparr>))
      | _ \<Rightarrow> Inl UnpackError)"

text \<open>
  \<open>get_transactions\<close>: a row whose \<open>try\<close> body raises is logged and the loop goes on;
  the generator itself never raises.
\<close>

fun get_transactions :: "table \<Rightarrow> transaction list" where
  "get_transactions [] = []"
| "get_transactions (line # rest) =
     (case make_transaction line of
        Inr t \<Rightarrow> t # get_transactions rest
      | Inl e \<Rightarrow> get_transactions rest)"

section \<open>The statement aggregator\<close>

record run =
  transactions :: "transaction list"
  total_change :: pyfloat
  total_inflow :: pyfloat
  total_outflow :: pyfloat

text \<open>
  The totals start as the integer 0, and an integer 0 plus a float is that float; as a
  float the integer 0 is \<open>Finite 0\<close>.
\<close>

definition initial_run :: run where
  "initial_run =
     \<lparr>transactions = [], total_change = Finite 0, total_inflow = Finite 0,
      total_outflow = Finite 0\<rparr>"

text \<open>The body of the inner loop, lines 82 to 87.\<close>

definition add_transaction :: "run \<Rightarrow> transaction \<Rightarrow> run" where
  "add_transaction st t =
     (let st1 = st\<lparr>transactions := transactions st @ [t],
                   total_change := float_add (total_change st) (amount t)\<rparr>
      in if float_gt0 (amount t)
         then st1\<lparr>total_inflow := float_add (total_inflow st1) (amount t)\<rparr>
         else st1\<lparr>total_outflow := float_add (total_outflow st1) (amount t)\<rparr>)"

text \<open>
  The \<open>try\<close> block of \<open>parse_statement\<close>: the state when the block is left, and the
  exception that left it, if one did.  A document that cannot be opened or whose pages
  cannot be read leaves the block before the loops.
\<close>

definition parse_statement_try :: "document \<Rightarrow> run \<times> py_error option" where
  "parse_statement_try pdf =
     (case pdf of
        Inl e \<Rightarrow> (initial_run, Some e)
      | Inr pages \<Rightarrow>
          (case get_transaction_tables pages of
             (tables, exc) \<Rightarrow>
               (foldl (\<lambda>st transaction_table.
                         foldl add_transaction st (get_transactions transaction_table))
                      initial_run tables,
                exc)))"

text \<open>
  The clause \<open>except Exception\<close> catches the instances of \<open>Exception\<close> and lets
  every other exception pass.  \<open>ValueError\<close>, \<open>TypeError\<close>, \<open>AttributeError\<close>,
  \<open>IndexError\<close>, \<open>OverflowError\<close> and \<open>UnicodeEncodeError\<close> are subclasses of
  \<open>Exception\<close>, and so are the exceptions of the PDF library and of opening a file.
\<close>

fun is_Exception :: "py_error \<Rightarrow> bool" where
  "is_Exception FormatError = True"
| "is_Exception CurrencyMismatch = True"
| "is_Exception FloatConversionError = True"
| "is_Exception UnpackError = True"
| "is_Exception DateFormatError = True"
| "is_Exception DateRangeError = True"
| "is_Exception TypeError = True"
| "is_Exception AttributeError = True"
| "is_Exception IndexError = True"
| "is_Exception HeaderNotFound = True"
| "is_Exception OverflowError = True"
| "is_Exception NanRoundError = True"
| "is_Exception UnicodeEncodeError = True"
| "is_Exception (ExternalError n) = True"

text \<open>
  The outcome of a call of \<open>parse_statement\<close>: \<open>Inr\<close> the list that it returns,
  \<open>Inl\<close> the exception that leaves it.  When the \<open>try\<close> block ends normally the list
  is returned; when it is left by an exception that the \<open>except\<close> clause catches, the
  exception is logged and the list is returned as it is then; any other exception leaves the
  function.
\<close>

definition parse_statement_outcome :: "document \<Rightarrow> py_error + transaction list" where
  "parse_statement_outcome pdf =
     (case parse_statement_try pdf of
        (st, None) \<Rightarrow> Inr (transactions st)
      | (st, Some e) \<Rightarrow> if is_Exception e then Inr (transactions st) else Inl e)"

text \<open>The list \<open>transactions\<close> when the \<open>return\<close> statement is reached.\<close>

definition parse_statement :: "document \<Rightarrow> transaction list" where
  "parse_statement pdf = transactions (fst (parse_statement_try pdf))"

section \<open>The export\<close>










section \<open>Properties of the table stream\<close>

lemma tables_loop_found: "tables_loop True ts = (True, ts, None)"
  by (induction ts) auto

lemma tables_loop_skip:
  "\<forall>t\<in>set pre. is_header_table t = Inr False \<Longrightarrow>
   tables_loop False (pre @ ts) = tables_loop False ts"
  by (induction pre) auto

lemma tables_loop_none:
  "\<forall>t\<in>set ts. is_header_table t = Inr False \<Longrightarrow> tables_loop False ts = (False, [], None)"
  by (induction ts) auto


lemma pages_loop_skip:
  "\<forall>t\<in>set (concat tss). is_header_table t = Inr False \<Longrightarrow>
   pages_loop False (map Inr tss @ ps) = pages_loop False ps"
  by (induction tss) (auto simp: tables_loop_none)

text \<open>A position in the sequence of all tables is a position in the tables of one page.\<close>

lemma concat_split:
  "concat tss = pre @ x # post \<Longrightarrow>
   \<exists>tss1 ts1 ts2 tss2.
     tss = tss1 @ (ts1 @ x # ts2) # tss2 \<and> pre = concat tss1 @ ts1 \<and> post = ts2 @ concat tss2"
proof (induction tss arbitrary: pre)
  case Nil
  then show ?case by simp
next
  case (Cons ts tss)
  from Cons.prems have eq: "ts @ concat tss = pre @ x # post" by simp
  show ?case
  proof (cases "length pre < length ts")
    case True
    with eq obtain ts2 where "ts = pre @ x # ts2" "post = ts2 @ concat tss"
      by (auto simp: append_eq_append_conv2 append_eq_Cons_conv Cons_eq_append_conv)
    then show ?thesis
      by (intro exI[of _ "[]"] exI[of _ pre] exI[of _ ts2] exI[of _ tss]) simp
  next
    case False
    with eq obtain pre' where p: "pre = ts @ pre'" "concat tss = pre' @ x # post"
      by (auto simp: append_eq_append_conv2 append_eq_Cons_conv Cons_eq_append_conv)
    from Cons.IH[OF p(2)] obtain tss1 ts1 ts2 tss2 where
      "tss = tss1 @ (ts1 @ x # ts2) # tss2" "pre' = concat tss1 @ ts1"
      "post = ts2 @ concat tss2"
      by blast
    with p show ?thesis
      by (intro exI[of _ "ts # tss1"] exI[of _ ts1] exI[of _ ts2] exI[of _ tss2]) simp
  qed
qed


lemma variant_altered:
  assumes "v \<in> set TRANSACTION_TABLE_HEADER_VARIANTS" "i < 4" "c \<noteq> v ! i"
  shows "v[i := c] \<notin> set TRANSACTION_TABLE_HEADER_VARIANTS"
proof -
  from assms(2) consider "i = 0" | "i = 1" | "i = 2" | "i = 3" by linarith
  then show ?thesis using assms(1,3)
    by cases (auto simp: TRANSACTION_TABLE_HEADER_VARIANTS_def ascii_def)
qed

lemma variant_length: "v \<in> set TRANSACTION_TABLE_HEADER_VARIANTS \<Longrightarrow> length v = 4"
  by (auto simp: TRANSACTION_TABLE_HEADER_VARIANTS_def)



text \<open>
  Claim C4.  A table with a first row is recognised as the header table exactly when that
  row is equal, as a list of cells, to one of the three signatures; every signature has
  four cells, so a row of another length is not recognised, and neither is a signature with
  one cell replaced by a different cell (another string, or a string differing in case).
\<close>

theorem header_exact_match:
  "is_header_table (r # rs) =
     Inr (r = [Some (ascii ''Date''), Some (ascii ''Amount''), Some (ascii ''Transaction''),
               Some (ascii ''Details'')]
          \<or> r = [Some [0x414, 0x430, 0x442, 0x430],
                 Some [0x421, 0x443, 0x43C, 0x43C, 0x430],
                 Some [0x41E, 0x43F, 0x435, 0x440, 0x430, 0x446, 0x438, 0x44F],
                 Some [0x414, 0x435, 0x442, 0x430, 0x43B, 0x438]]
          \<or> r = [Some [0x41A, 0x4AF, 0x43D, 0x456],
                 Some [0x421, 0x43E, 0x43C, 0x430, 0x441, 0x44B],
                 Some [0x41E, 0x43F, 0x435, 0x440, 0x430, 0x446, 0x438, 0x44F],
                 Some [0x422, 0x43E, 0x43B, 0x44B, 0x493, 0x44B, 0x440, 0x430, 0x49B]])
   \<and> (length r \<noteq> 4 \<longrightarrow> is_header_table (r # rs) = Inr False)
   \<and> (\<forall>v\<in>set TRANSACTION_TABLE_HEADER_VARIANTS. \<forall>i<4. \<forall>c.
         c \<noteq> v ! i \<longrightarrow> is_header_table (v[i := c] # rs) = Inr False)"
proof (intro conjI)
  show "is_header_table (r # rs) =
     Inr (r = [Some (ascii ''Date''), Some (ascii ''Amount''), Some (ascii ''Transaction''),
               Some (ascii ''Details'')]
          \<or> r = [Some [0x414, 0x430, 0x442, 0x430],
                 Some [0x421, 0x443, 0x43C, 0x43C, 0x430],
                 Some [0x41E, 0x43F, 0x435, 0x440, 0x430, 0x446, 0x438, 0x44F],
                 Some [0x414, 0x435, 0x442, 0x430, 0x43B, 0x438]]
          \<or> r = [Some [0x41A, 0x4AF, 0x43D, 0x456],
                 Some [0x421, 0x43E, 0x43C, 0x430, 0x441, 0x44B],
                 Some [0x41E, 0x43F, 0x435, 0x440, 0x430, 0x446, 0x438, 0x44F],
                 Some [0x422, 0x43E, 0x43B, 0x44B, 0x493, 0x44B, 0x440, 0x430, 0x49B]])"
    by (simp add: is_header_table_def TRANSACTION_TABLE_HEADER_VARIANTS_def)
  show "length r \<noteq> 4 \<longrightarrow> is_header_table (r # rs) = Inr False"
    using variant_length[of r] by (auto simp: is_header_table_def)
  show "\<forall>v\<in>set TRANSACTION_TABLE_HEADER_VARIANTS. \<forall>i<4. \<forall>c.
         c \<noteq> v ! i \<longrightarrow> is_header_table (v[i := c] # rs) = Inr False"
    using variant_altered by (simp add: is_header_table_def)
qed

theorem header_exact_match_witness:
  "is_header_table
     [[Some (ascii ''Date''), Some (ascii ''Amount''), Some (ascii ''Transaction''),
       Some (ascii ''Details'')]] = Inr True
   \<and> is_header_table
       [[Some (ascii ''Date''), Some (ascii ''Amount''), Some (ascii ''Transaction'')]]
     = Inr False
   \<and> is_header_table
       [[Some (ascii ''date''), Some (ascii ''Amount''), Some (ascii ''Transaction''),
         Some (ascii ''Details'')]] = Inr False"
proof -
  let ?v = "[Some (ascii ''Date''), Some (ascii ''Amount''), Some (ascii ''Transaction''),
             Some (ascii ''Details'')]"
  have v: "?v \<in> set TRANSACTION_TABLE_HEADER_VARIANTS"
    by (simp add: TRANSACTION_TABLE_HEADER_VARIANTS_def)
  have ne: "Some (ascii ''date'') \<noteq> ?v ! 0"
    by (simp add: ascii_def)
  have alt: "\<forall>v\<in>set TRANSACTION_TABLE_HEADER_VARIANTS. \<forall>i<4. \<forall>c.
         c \<noteq> v ! i \<longrightarrow> is_header_table (v[i := c] # []) = Inr False"
    using header_exact_match[of ?v "[]"] by (elim conjE)
  have "is_header_table (?v[0 := Some (ascii ''date'')] # []) = Inr False"
    using alt[rule_format, OF v, of 0 "Some (ascii ''date'')"] ne by simp
  moreover have "is_header_table (?v # []) = Inr True"
    using header_exact_match[of ?v "[]"] by simp
  moreover have "is_header_table
       ([Some (ascii ''Date''), Some (ascii ''Amount''), Some (ascii ''Transaction'')] # [])
     = Inr False"
    using header_exact_match
      [of "[Some (ascii ''Date''), Some (ascii ''Amount''), Some (ascii ''Transaction'')]" "[]"]
    by simp
  ultimately show ?thesis by simp
qed

section \<open>Evaluation of concrete inputs\<close>

text \<open>Rewrite rules with which the simplifier computes the model on literals.\<close>

lemma floor_rat_numeral_div:
  "\<lfloor>(numeral a :: rat) / numeral b\<rfloor> = numeral a div numeral b"
  using floor_divide_of_int_eq[of "numeral a" "numeral b", where ?'a = rat] by simp

lemma ceiling_rat_numeral_div:
  "\<lceil>(numeral a :: rat) / numeral b\<rceil> = - ((- numeral a) div numeral b)"
  using ceiling_divide_eq_div[of "numeral a" "numeral b", where ?'a = rat] by simp

lemma bitlen_step: "0 < x \<Longrightarrow> bitlen x = bitlen (x div 2) + 1"
  using compute_bitlen[of x] by simp

lemmas round_eval =
  round_to_double_def floor_log2_def round_half_even_def pow2_def Let_def bitlen_step
  floor_rat_numeral_div ceiling_rat_numeral_div

lemmas class_eval =
  is_space_def amount_class_def is_digit_def decimal_value_def decimal_run_starts_def

lemmas amount_eval =
  parse_amount_def split_first_line_def re_match_def AMOUNT_PATTERN_def dollar_def
  EXPECTED_CURRENCY_def
  py_float_def digits_value_def

lemmas date_eval =
  strptime_def DATE_PATTERN_def day_pattern_def month_pattern_def year_pattern_def
  lit_def crange_def seq2_def alt_def py_int_def digits_value_def days_in_month_def
  is_leap_def

lemma date_010324:
  "strptime (Some (ascii ''01.03.24'')) = Inr \<lparr>year = 2024, month = 3, day = 1\<rparr>"
  by (simp add: ascii_def date_eval class_eval)

lemma date_020324:
  "strptime (Some (ascii ''02.03.24'')) = Inr \<lparr>year = 2024, month = 3, day = 2\<rparr>"
  by (simp add: ascii_def date_eval class_eval)

lemma date_030324:
  "strptime (Some (ascii ''03.03.24'')) = Inr \<lparr>year = 2024, month = 3, day = 3\<rparr>"
  by (simp add: ascii_def date_eval class_eval)

lemma amount_plus_1000_50:
  "parse_amount (Some (ascii ''+ 1 000,50 '' @ [0x20B8])) = Inr (Finite (2001 / 2))"
  by (simp add: ascii_def amount_eval class_eval round_eval)

lemma amount_minus_250:
  "parse_amount (Some (ascii ''- 250 '' @ [0x20B8])) = Inr (Finite (- 250))"
  by (simp add: ascii_def amount_eval class_eval round_eval)

lemma amount_garbage: "parse_amount (Some (ascii ''garbage'')) = Inl FormatError"
  by (simp add: ascii_def amount_eval class_eval)

lemma row_alice:
  "make_transaction
     [Some (ascii ''01.03.24''), Some (ascii ''+ 1 000,50 '' @ [0x20B8]),
      Some (ascii ''Transfer''), Some (ascii ''Alice'')]
   = Inr \<lparr>date = \<lparr>year = 2024, month = 3, day = 1\<rparr>, payee = Some (ascii ''Alice''),
          memo = [], amount = Finite (2001 / 2)\<rparr>"
  by (simp add: make_transaction_def date_010324 amount_plus_1000_50)

lemma row_shop:
  "make_transaction
     [Some (ascii ''02.03.24''), Some (ascii ''- 250 '' @ [0x20B8]),
      Some (ascii ''Purchase''), Some (ascii ''Shop'')]
   = Inr \<lparr>date = \<lparr>year = 2024, month = 3, day = 2\<rparr>, payee = Some (ascii ''Shop''),
          memo = [], amount = Finite (- 250)\<rparr>"
  by (simp add: make_transaction_def date_020324 amount_minus_250)

lemma row_shop_3:
  "make_transaction
     [Some (ascii ''03.03.24''), Some (ascii ''- 250 '' @ [0x20B8]),
      Some (ascii ''Purchase''), Some (ascii ''Shop'')]
   = Inr \<lparr>date = \<lparr>year = 2024, month = 3, day = 3\<rparr>, payee = Some (ascii ''Shop''),
          memo = [], amount = Finite (- 250)\<rparr>"
  by (simp add: make_transaction_def date_030324 amount_minus_250)

section \<open>Properties of the transaction builder and of the aggregator\<close>

lemma get_transactions_append:
  "get_transactions (xs @ ys) = get_transactions xs @ get_transactions ys"
  by (induction xs) (auto split: sum.splits)

lemma make_transaction_fails:
  assumes "length r \<noteq> 4 \<or> (\<exists>e. strptime (r ! 0) = Inl e) \<or> (\<exists>e. parse_amount (r ! 1) = Inl e)"
  shows "\<exists>e. make_transaction r = Inl e"
proof (cases "length r = 4")
  case False
  then show ?thesis
    by (auto simp: make_transaction_def split: list.splits)
next
  case True
  then obtain a b c d where r: "r = [a, b, c, d]"
    by (auto simp: length_Suc_conv numeral_eq_Suc)
  with True assms show ?thesis
    by (auto simp: make_transaction_def split: sum.splits)
qed

lemma transactions_foldl_add:
  "transactions (foldl add_transaction st ts) = transactions st @ ts"
  by (induction ts arbitrary: st) (auto simp: add_transaction_def Let_def)

lemma transactions_foldl_tables:
  "transactions (foldl (\<lambda>st tb. foldl add_transaction st (get_transactions tb)) st tables)
   = transactions st @ concat (map get_transactions tables)"
  by (induction tables arbitrary: st) (auto simp: transactions_foldl_add)

lemma parse_statement_eq:
  "parse_statement pdf =
     (case pdf of
        Inl e \<Rightarrow> []
      | Inr pages \<Rightarrow> concat (map get_transactions (fst (get_transaction_tables pages))))"
  by (auto simp: parse_statement_def parse_statement_try_def initial_run_def
        transactions_foldl_tables split: sum.splits prod.splits)

lemma parse_statement_try_exc:
  "snd (parse_statement_try (Inr pages)) = snd (get_transaction_tables pages)"
  by (simp add: parse_statement_try_def split: prod.splits)

lemma no_header_stream:
  assumes "\<forall>p\<in>set pages. \<exists>ts. p = Inr ts \<and> (\<forall>t\<in>set ts. is_header_table t = Inr False)"
  shows "get_transaction_tables pages = ([], Some HeaderNotFound)"
  unfolding get_transaction_tables_def using assms
  by (induction pages) (auto simp: tables_loop_none)

lemma empty_table_stream:
  assumes "\<forall>t\<in>set (concat tss @ ts1). is_header_table t = Inr False"
  shows "get_transaction_tables (map Inr tss @ Inr (ts1 @ [] # ts2) # later)
         = ([], Some IndexError)"
proof -
  have a: "\<forall>t\<in>set (concat tss). is_header_table t = Inr False"
    using assms by auto
  have b: "\<forall>t\<in>set ts1. is_header_table t = Inr False"
    using assms by auto
  have "tables_loop False (ts1 @ [] # ts2) = (False, [], Some IndexError)"
    using tables_loop_skip[OF b, of "[] # ts2"] by (simp add: is_header_table_def)
  then show ?thesis
    unfolding get_transaction_tables_def using pages_loop_skip[OF a] by simp
qed

lemma pages_loop_found_raise:
  "pages_loop True (map Inr tss @ Inl e # later) = (concat tss, Some e)"
  by (induction tss) (auto simp: tables_loop_found)

text \<open>
  A page that raises after the header has been found ends the stream with that exception;
  the tables yielded so far stay yielded.
\<close>

lemma stream_header_then_raise:
  assumes "concat tss = pre @ T # post"
    and "\<forall>t\<in>set pre. is_header_table t = Inr False"
    and "is_header_table T = Inr True"
  shows "get_transaction_tables (map Inr tss @ Inl e # later) = (tl T # post, Some e)"
proof -
  from concat_split[OF assms(1)] obtain tss1 ts1 ts2 tss2 where
    d: "tss = tss1 @ (ts1 @ T # ts2) # tss2" "pre = concat tss1 @ ts1"
       "post = ts2 @ concat tss2"
    by blast
  have a: "\<forall>t\<in>set (concat tss1). is_header_table t = Inr False"
    using assms(2) d(2) by auto
  have b: "\<forall>t\<in>set ts1. is_header_table t = Inr False"
    using assms(2) d(2) by auto
  have "tables_loop False (ts1 @ T # ts2) = (True, tl T # ts2, None)"
    using tables_loop_skip[OF b] assms(3) by (simp add: tables_loop_found)
  then have "pages_loop False (Inr (ts1 @ T # ts2) # map Inr tss2 @ Inl e # later)
             = (tl T # ts2 @ concat tss2, Some e)"
    by (simp add: pages_loop_found_raise)
  then show ?thesis
    unfolding get_transaction_tables_def d
    using pages_loop_skip[OF a, of "Inr (ts1 @ T # ts2) # map Inr tss2 @ Inl e # later"]
    by simp
qed

lemma stream_raise_before_header:
  assumes "\<forall>t\<in>set (concat tss). is_header_table t = Inr False"
  shows "get_transaction_tables (map Inr tss @ Inl e # later) = ([], Some e)"
  using pages_loop_skip[OF assms, of "Inl e # later"]
  by (simp add: get_transaction_tables_def)

lemma is_Exception_all: "is_Exception e"
  by (cases e) simp_all

lemma parse_statement_outcome_eq: "parse_statement_outcome pdf = Inr (parse_statement pdf)"
  by (simp add: parse_statement_outcome_def parse_statement_def is_Exception_all
        split: prod.splits option.splits)

text \<open>
  Claim C1.  No exception leaves \<open>parse_statement\<close>: every exception that can leave its
  \<open>try\<close> block is caught, and the call returns the list held when the block was left.
  That list is empty for a document that cannot be opened; otherwise it holds the
  transactions of the tables that the table stream yielded before it ended or raised.  When
  a page raises after the header table, the transactions of the header table and of every
  table between it and that page are returned, in order, and nothing of the later pages.
  When a page raises before any header table, and when all pages give tables that are
  tested and match no header signature (the stream then raises the header-not-found
  error), the result is the empty list.
\<close>

theorem parse_statement_contains_failures:
  "parse_statement_outcome pdf = Inr (parse_statement pdf)
   \<and> parse_statement pdf =
       (case pdf of
          Inl e \<Rightarrow> []
        | Inr pages \<Rightarrow> concat (map get_transactions (fst (get_transaction_tables pages))))
   \<and> snd (parse_statement_try (Inl eo)) = Some eo
   \<and> parse_statement_outcome (Inl eo) = Inr []
   \<and> (concat tss = pre @ T # post
       \<and> (\<forall>t\<in>set pre. is_header_table t = Inr False)
       \<and> is_header_table T = Inr True \<longrightarrow>
       get_transaction_tables (map Inr tss @ Inl e # later) = (tl T # post, Some e)
       \<and> snd (parse_statement_try (Inr (map Inr tss @ Inl e # later))) = Some e
       \<and> parse_statement_outcome (Inr (map Inr tss @ Inl e # later))
         = Inr (get_transactions (tl T) @ concat (map get_transactions post)))
   \<and> ((\<forall>t\<in>set (concat uss). is_header_table t = Inr False) \<longrightarrow>
       snd (parse_statement_try (Inr (map Inr uss @ Inl eb # rest))) = Some eb
       \<and> parse_statement_outcome (Inr (map Inr uss @ Inl eb # rest)) = Inr [])
   \<and> ((\<forall>p\<in>set ps. \<exists>ts. p = Inr ts \<and> (\<forall>t\<in>set ts. is_header_table t = Inr False)) \<longrightarrow>
        snd (parse_statement_try (Inr ps)) = Some HeaderNotFound
        \<and> parse_statement_outcome (Inr ps) = Inr []
        \<and> parse_statement (Inr ps) = [])"
proof (intro conjI impI)
  show "parse_statement_outcome pdf = Inr (parse_statement pdf)"
    by (rule parse_statement_outcome_eq)
  show "parse_statement pdf =
       (case pdf of
          Inl e \<Rightarrow> []
        | Inr pages \<Rightarrow> concat (map get_transactions (fst (get_transaction_tables pages))))"
    by (rule parse_statement_eq)
  show "snd (parse_statement_try (Inl eo)) = Some eo"
    by (simp add: parse_statement_try_def)
  show "parse_statement_outcome (Inl eo) = Inr []"
    by (simp add: parse_statement_outcome_eq parse_statement_eq)
next
  assume h: "concat tss = pre @ T # post
       \<and> (\<forall>t\<in>set pre. is_header_table t = Inr False)
       \<and> is_header_table T = Inr True"
  then have s: "get_transaction_tables (map Inr tss @ Inl e # later) = (tl T # post, Some e)"
    by (intro stream_header_then_raise) blast+
  then show "get_transaction_tables (map Inr tss @ Inl e # later) = (tl T # post, Some e)" .
  show "snd (parse_statement_try (Inr (map Inr tss @ Inl e # later))) = Some e"
    by (simp add: parse_statement_try_exc s)
  show "parse_statement_outcome (Inr (map Inr tss @ Inl e # later))
         = Inr (get_transactions (tl T) @ concat (map get_transactions post))"
    by (simp add: parse_statement_outcome_eq parse_statement_eq s)
next
  assume h: "\<forall>t\<in>set (concat uss). is_header_table t = Inr False"
  show "snd (parse_statement_try (Inr (map Inr uss @ Inl eb # rest))) = Some eb"
    by (simp add: parse_statement_try_exc stream_raise_before_header[OF h])
  show "parse_statement_outcome (Inr (map Inr uss @ Inl eb # rest)) = Inr []"
    by (simp add: parse_statement_outcome_eq parse_statement_eq
          stream_raise_before_header[OF h])
next
  assume h: "\<forall>p\<in>set ps. \<exists>ts. p = Inr ts \<and> (\<forall>t\<in>set ts. is_header_table t = Inr False)"
  show "snd (parse_statement_try (Inr ps)) = Some HeaderNotFound"
    by (simp add: parse_statement_try_exc no_header_stream[OF h])
  show "parse_statement (Inr ps) = []"
    by (simp add: parse_statement_eq no_header_stream[OF h])
  then show "parse_statement_outcome (Inr ps) = Inr []"
    by (simp add: parse_statement_outcome_eq)
qed

text \<open>
  A statement whose first page holds the header table with one row and whose second page
  raises gives that one transaction; a page that raises before any header table, and a
  statement without a header table, give none.
\<close>

theorem parse_statement_contains_failures_witness:
  "parse_statement_outcome
     (Inr [Inr [[[Some (ascii ''Date''), Some (ascii ''Amount''), Some (ascii ''Transaction''),
                  Some (ascii ''Details'')],
                 [Some (ascii ''01.03.24''), Some (ascii ''+ 1 000,50 '' @ [0x20B8]),
                  Some (ascii ''Transfer''), Some (ascii ''Alice'')]]],
           Inl (ExternalError 0),
           Inr [[[Some (ascii ''02.03.24''), Some (ascii ''- 250 '' @ [0x20B8]),
                  Some (ascii ''Purchase''), Some (ascii ''Shop'')]]]])
     = Inr [\<lparr>date = \<lparr>year = 2024, month = 3, day = 1\<rparr>, payee = Some (ascii ''Alice''),
             memo = [], amount = Finite (2001 / 2)\<rparr>]
   \<and> snd (parse_statement_try
       (Inr [Inr [[[Some (ascii ''Date''), Some (ascii ''Amount''),
                    Some (ascii ''Transaction''), Some (ascii ''Details'')],
                   [Some (ascii ''01.03.24''), Some (ascii ''+ 1 000,50 '' @ [0x20B8]),
                    Some (ascii ''Transfer''), Some (ascii ''Alice'')]]],
             Inl (ExternalError 0),
             Inr [[[Some (ascii ''02.03.24''), Some (ascii ''- 250 '' @ [0x20B8]),
                    Some (ascii ''Purchase''), Some (ascii ''Shop'')]]]]))
     = Some (ExternalError 0)
   \<and> parse_statement_outcome
       (Inr [Inr [[[Some (ascii ''Balance'')], [Some (ascii ''100'')]]],
             Inl (ExternalError 1),
             Inr [[[Some (ascii ''Date''), Some (ascii ''Amount''),
                    Some (ascii ''Transaction''), Some (ascii ''Details'')],
                   [Some (ascii ''01.03.24''), Some (ascii ''+ 1 000,50 '' @ [0x20B8]),
                    Some (ascii ''Transfer''), Some (ascii ''Alice'')]]]])
     = Inr []
   \<and> parse_statement_outcome
       (Inr [Inr [[[Some (ascii ''Balance'')], [Some (ascii ''100'')]]], Inr [],
             Inr [[[Some (ascii ''Date''), Some (ascii ''Amount'')]]]]) = Inr []
   \<and> snd (parse_statement_try
       (Inr [Inr [[[Some (ascii ''Balance'')], [Some (ascii ''100'')]]], Inr [],
             Inr [[[Some (ascii ''Date''), Some (ascii ''Amount'')]]]]))
     = Some HeaderNotFound
   \<and> parse_statement_outcome (Inl (ExternalError 2)) = Inr []"
proof -
  let ?T = "[[Some (ascii ''Date''), Some (ascii ''Amount''), Some (ascii ''Transaction''),
              Some (ascii ''Details'')],
             [Some (ascii ''01.03.24''), Some (ascii ''+ 1 000,50 '' @ [0x20B8]),
              Some (ascii ''Transfer''), Some (ascii ''Alice'')]]"
  let ?S = "[[Some (ascii ''02.03.24''), Some (ascii ''- 250 '' @ [0x20B8]),
              Some (ascii ''Purchase''), Some (ascii ''Shop'')]]"
  let ?B = "[[Some (ascii ''Balance'')], [Some (ascii ''100'')]]"
  let ?H = "[[Some (ascii ''Date''), Some (ascii ''Amount'')]]"
  have hT: "is_header_table ?T = Inr True"
    by (simp add: is_header_table_def TRANSACTION_TABLE_HEADER_VARIANTS_def)
  have hB: "is_header_table ?B = Inr False"
    by (simp add: is_header_table_def TRANSACTION_TABLE_HEADER_VARIANTS_def ascii_def)
  have hH: "is_header_table ?H = Inr False"
    by (simp add: is_header_table_def TRANSACTION_TABLE_HEADER_VARIANTS_def ascii_def)
  have gT: "get_transactions (tl ?T)
            = [\<lparr>date = \<lparr>year = 2024, month = 3, day = 1\<rparr>, payee = Some (ascii ''Alice''),
                memo = [], amount = Finite (2001 / 2)\<rparr>]"
    by (simp add: row_alice)
  note inst = parse_statement_contains_failures
    [where pdf = "Inl (ExternalError 2)" and eo = "ExternalError 2"
       and tss = "[[?T]]" and pre = "[]" and T = ?T and post = "[]"
       and e = "ExternalError 0" and later = "[Inr [?S]]"
       and uss = "[[?B]]" and eb = "ExternalError 1" and rest = "[Inr [?T]]"
       and ps = "[Inr [?B], Inr [], Inr [?H]]"]
  have 1: "parse_statement_outcome (Inr [Inr [?T], Inl (ExternalError 0), Inr [?S]])
           = Inr (get_transactions (tl ?T))"
    and 2: "snd (parse_statement_try (Inr [Inr [?T], Inl (ExternalError 0), Inr [?S]]))
           = Some (ExternalError 0)"
    using inst hT by simp_all
  have 3: "parse_statement_outcome (Inr [Inr [?B], Inl (ExternalError 1), Inr [?T]]) = Inr []"
    using inst hB by simp
  have 4: "parse_statement_outcome (Inr [Inr [?B], Inr [], Inr [?H]]) = Inr []"
    and 5: "snd (parse_statement_try (Inr [Inr [?B], Inr [], Inr [?H]])) = Some HeaderNotFound"
    using inst hB hH by simp_all
  have 6: "parse_statement_outcome (Inl (ExternalError 2)) = Inr []"
    using inst by blast
  show ?thesis
    using 1 2 3 4 5 6 by (simp only: gT simp_thms)
qed

text \<open>
  Claim C10.  When the first table without rows comes before any header table (every
  earlier page gave its tables, and every earlier table was tested and did not match),
  the test of its first row raises the index error; nothing has been yielded, the error
  leaves the generator and is caught by \<open>parse_statement\<close>, which returns the empty
  list whatever the later tables and pages hold.
\<close>

theorem empty_table_before_header_loses_all:
  assumes "\<forall>t\<in>set (concat tss @ ts1). is_header_table t = Inr False"
  shows "is_header_table [] = Inl IndexError
         \<and> get_transaction_tables (map Inr tss @ Inr (ts1 @ [] # ts2) # later)
           = ([], Some IndexError)
         \<and> snd (parse_statement_try (Inr (map Inr tss @ Inr (ts1 @ [] # ts2) # later)))
           = Some IndexError
         \<and> parse_statement (Inr (map Inr tss @ Inr (ts1 @ [] # ts2) # later)) = []"
  using empty_table_stream[OF assms, of ts2 later]
  by (simp add: is_header_table_def parse_statement_eq parse_statement_try_exc)

theorem empty_table_before_header_loses_all_witness:
  "parse_statement
     (Inr [Inr [[[Some (ascii ''Balance'')]],
                [],
                [[Some (ascii ''Date''), Some (ascii ''Amount''), Some (ascii ''Transaction''),
                  Some (ascii ''Details'')],
                 [Some (ascii ''01.03.24''), Some (ascii ''+ 1 000,50 '' @ [0x20B8]),
                  Some (ascii ''Transfer''), Some (ascii ''Alice'')]]]]) = []
   \<and> snd (parse_statement_try
       (Inr [Inr [[[Some (ascii ''Balance'')]],
                [],
                [[Some (ascii ''Date''), Some (ascii ''Amount''), Some (ascii ''Transaction''),
                  Some (ascii ''Details'')],
                 [Some (ascii ''01.03.24''), Some (ascii ''+ 1 000,50 '' @ [0x20B8]),
                  Some (ascii ''Transfer''), Some (ascii ''Alice'')]]]]))
     = Some IndexError"
proof -
  have h: "\<forall>t\<in>set (concat [] @ [[[Some (ascii ''Balance'')]]]). is_header_table t = Inr False"
    by (simp add: is_header_table_def TRANSACTION_TABLE_HEADER_VARIANTS_def ascii_def)
  show ?thesis
    using empty_table_before_header_loses_all[OF h,
      of "[[[Some (ascii ''Date''), Some (ascii ''Amount''), Some (ascii ''Transaction''),
             Some (ascii ''Details'')],
            [Some (ascii ''01.03.24''), Some (ascii ''+ 1 000,50 '' @ [0x20B8]),
             Some (ascii ''Transfer''), Some (ascii ''Alice'')]]]" "[]"]
    by simp
qed

text \<open>
  Claim C2.  A row whose \<open>try\<close> body raises contributes nothing and the rows after it are
  still processed; a row that builds a transaction contributes it in place.  The body
  raises when the row has not exactly four cells, when the date does not parse and when the
  amount does not parse.  For three rows of which the first and third build transactions
  and the second has four cells and an amount that does not parse, the result is the two
  transactions, in order.
\<close>

theorem malformed_row_is_skipped:
  "(make_transaction r = Inl e \<longrightarrow>
      get_transactions (pre @ r # post) = get_transactions pre @ get_transactions post)
   \<and> (make_transaction r = Inr t \<longrightarrow>
      get_transactions (pre @ r # post) = get_transactions pre @ t # get_transactions post)
   \<and> (length r \<noteq> 4 \<or> (\<exists>e. strptime (r ! 0) = Inl e) \<or> (\<exists>e. parse_amount (r ! 1) = Inl e) \<longrightarrow>
      get_transactions (pre @ r # post) = get_transactions pre @ get_transactions post)
   \<and> (make_transaction r1 = Inr t1 \<and> length r2 = 4 \<and> parse_amount (r2 ! 1) = Inl e2
      \<and> make_transaction r3 = Inr t3 \<longrightarrow>
      get_transactions [r1, r2, r3] = [t1, t3])"
proof (intro conjI impI)
  assume "make_transaction r = Inl e"
  then show "get_transactions (pre @ r # post) = get_transactions pre @ get_transactions post"
    by (simp add: get_transactions_append)
next
  assume "make_transaction r = Inr t"
  then show "get_transactions (pre @ r # post)
             = get_transactions pre @ t # get_transactions post"
    by (simp add: get_transactions_append)
next
  assume "length r \<noteq> 4 \<or> (\<exists>e. strptime (r ! 0) = Inl e) \<or> (\<exists>e. parse_amount (r ! 1) = Inl e)"
  from make_transaction_fails[OF this] obtain e' where "make_transaction r = Inl e'" ..
  then show "get_transactions (pre @ r # post) = get_transactions pre @ get_transactions post"
    by (simp add: get_transactions_append)
next
  assume h: "make_transaction r1 = Inr t1 \<and> length r2 = 4 \<and> parse_amount (r2 ! 1) = Inl e2
      \<and> make_transaction r3 = Inr t3"
  then have "\<exists>e. make_transaction r2 = Inl e"
    by (intro make_transaction_fails) blast
  then obtain e' where "make_transaction r2 = Inl e'" ..
  with h show "get_transactions [r1, r2, r3] = [t1, t3]"
    by simp
qed

theorem malformed_row_is_skipped_witness:
  "get_transactions
     [[Some (ascii ''01.03.24''), Some (ascii ''+ 1 000,50 '' @ [0x20B8]),
       Some (ascii ''Transfer''), Some (ascii ''Alice'')],
      [Some (ascii ''02.03.24''), Some (ascii ''garbage''),
       Some (ascii ''Purchase''), Some (ascii ''Cafe'')],
      [Some (ascii ''03.03.24''), Some (ascii ''- 250 '' @ [0x20B8]),
       Some (ascii ''Purchase''), Some (ascii ''Shop'')]]
   = [\<lparr>date = \<lparr>year = 2024, month = 3, day = 1\<rparr>, payee = Some (ascii ''Alice''),
       memo = [], amount = Finite (2001 / 2)\<rparr>,
      \<lparr>date = \<lparr>year = 2024, month = 3, day = 3\<rparr>, payee = Some (ascii ''Shop''),
       memo = [], amount = Finite (- 250)\<rparr>]"
  using malformed_row_is_skipped
    [of "[]" FormatError "[]" "[]" "\<lparr>date = \<lparr>year = 2024, month = 3, day = 1\<rparr>,
          payee = None, memo = [], amount = Finite 0\<rparr>"
        "[Some (ascii ''01.03.24''), Some (ascii ''+ 1 000,50 '' @ [0x20B8]),
          Some (ascii ''Transfer''), Some (ascii ''Alice'')]"
        "\<lparr>date = \<lparr>year = 2024, month = 3, day = 1\<rparr>, payee = Some (ascii ''Alice''),
          memo = [], amount = Finite (2001 / 2)\<rparr>"
        "[Some (ascii ''02.03.24''), Some (ascii ''garbage''),
          Some (ascii ''Purchase''), Some (ascii ''Cafe'')]"
        FormatError
        "[Some (ascii ''03.03.24''), Some (ascii ''- 250 '' @ [0x20B8]),
          Some (ascii ''Purchase''), Some (ascii ''Shop'')]"
        "\<lparr>date = \<lparr>year = 2024, month = 3, day = 3\<rparr>, payee = Some (ascii ''Shop''),
          memo = [], amount = Finite (- 250)\<rparr>"]
    row_alice row_shop_3 amount_garbage
  by simp

section \<open>Rounding and the run totals\<close>

lemma round_half_even_of_int: "round_half_even (of_int k) = k"
  by (simp add: round_half_even_def)

lemma round_half_even_nearest:
  "\<bar>q - of_int (round_half_even q)\<bar> \<le> 1 / 2
   \<and> (\<bar>q - of_int (round_half_even q)\<bar> = 1 / 2 \<longrightarrow> even (round_half_even q))"
proof -
  define f where "f = \<lfloor>q\<rfloor>"
  define r where "r = q - of_int f"
  have r: "0 \<le> r" "r < 1"
    unfolding r_def f_def by linarith+
  have q: "q = of_int f + r"
    by (simp add: r_def)
  show ?thesis
    unfolding round_half_even_def Let_def f_def[symmetric] r_def[symmetric]
    using r by (auto simp: q)
qed

text \<open>An integer of magnitude below \<open>2\<^sup>5\<^sup>3\<close> is a float, so rounding leaves it alone.\<close>

lemma round_to_double_of_int:
  assumes "\<bar>n\<bar> < 2 ^ 53"
  shows "round_to_double (of_int n) = Finite (of_int n)"
proof (cases "n = 0")
  case True
  then show ?thesis by (simp add: round_to_double_def)
next
  case False
  define m where "m = \<bar>n\<bar>"
  have m: "0 < m" "m < 2 ^ 53"
    using False assms by (auto simp: m_def)
  have a: "\<bar>rat_of_int n\<bar> = of_int m"
    by (simp add: m_def)
  have b1: "1 \<le> bitlen m"
    using bitlen_ge_iff_power[of 1 m] m by simp
  have b2: "bitlen m \<le> 53"
    using bitlen_le_iff_power[of m 53] m by simp
  have fl: "floor_log2 (of_int m) = bitlen m - 1"
    using m by (simp add: floor_log2_def)
  define x where "x = bitlen m - 53"
  have x: "- 52 \<le> x" "x \<le> 0"
    using b1 b2 by (auto simp: x_def)
  have mx: "max (floor_log2 (of_int m) - 52) (- 1074) = x"
    using x by (simp add: fl x_def)
  have px: "pow2 x = 1 / 2 ^ nat (- x)"
    using x by (cases "x = 0") (auto simp: pow2_def)
  have q: "rat_of_int m / pow2 x = of_int (m * 2 ^ nat (- x))"
    by (simp add: px)
  have r: "of_int (round_half_even (rat_of_int m / pow2 x)) * pow2 x = of_int m"
    unfolding q round_half_even_of_int by (simp add: px)
  have "rat_of_int m < 2 ^ 1024"
  proof -
    have "m < 2 ^ 1024"
      using m(2) by (rule less_trans) simp
    then have "rat_of_int m < rat_of_int (2 ^ 1024)"
      by (simp only: of_int_less_iff)
    then show ?thesis by simp
  qed
  then have big: "\<not> pow2 1024 \<le> rat_of_int m"
    by (simp add: pow2_def)
  have n0: "rat_of_int n \<noteq> 0"
    using False by simp
  show ?thesis
    unfolding round_to_double_def Let_def a mx r
    using n0 big by (auto simp: m_def)
qed

lemma float_add_ints:
  "\<bar>a + b\<bar> < 2 ^ 53 \<Longrightarrow>
   float_add (Finite (of_int a)) (Finite (of_int b)) = Finite (of_int (a + b))"
  using round_to_double_of_int[of "a + b"] by simp

lemma foldl_tables_flat:
  "foldl (\<lambda>st tb. foldl add_transaction st (get_transactions tb)) st tables
   = foldl add_transaction st (concat (map get_transactions tables))"
  by (induction tables arbitrary: st) auto

lemma try_state_flat:
  "fst (parse_statement_try pdf) = foldl add_transaction initial_run (parse_statement pdf)"
  by (auto simp: parse_statement_eq parse_statement_try_def foldl_tables_flat
      split: sum.splits prod.splits)

lemma totals_are_folds:
  "total_change (foldl add_transaction st ts)
     = foldl float_add (total_change st) (map amount ts)
   \<and> total_inflow (foldl add_transaction st ts)
     = foldl float_add (total_inflow st) (filter float_gt0 (map amount ts))
   \<and> total_outflow (foldl add_transaction st ts)
     = foldl float_add (total_outflow st) (filter (\<lambda>a. \<not> float_gt0 a) (map amount ts))"
  by (induction ts arbitrary: st) (auto simp: add_transaction_def Let_def)

lemma exact_run:
  assumes "map amount ts = map (\<lambda>k. Finite (of_int k)) ks"
    and "total_change st = Finite (of_int c)"
    and "total_inflow st = Finite (of_int i)"
    and "total_outflow st = Finite (of_int d)"
    and "c = i + d" "0 \<le> i" "d \<le> 0"
    and "i - d + sum_list (map abs ks) < 2 ^ 53"
  shows "\<exists>c' i' d'.
           total_change (foldl add_transaction st ts) = Finite (of_int c')
           \<and> total_inflow (foldl add_transaction st ts) = Finite (of_int i')
           \<and> total_outflow (foldl add_transaction st ts) = Finite (of_int d')
           \<and> c' = i' + d' \<and> 0 \<le> i' \<and> d' \<le> 0 \<and> i' - d' < 2 ^ 53"
  using assms
proof (induction ts arbitrary: st ks c i d)
  case Nil
  then show ?case by auto
next
  case (Cons t ts)
  from Cons.prems(1) obtain k ks' where ks: "ks = k # ks'"
    and t: "amount t = Finite (of_int k)"
    and ts: "map amount ts = map (\<lambda>k. Finite (of_int k)) ks'"
    by (cases ks) auto
  have nonneg: "0 \<le> sum_list (map abs ks')"
    by (rule sum_list_nonneg) auto
  have bound: "i - d + \<bar>k\<bar> + sum_list (map abs ks') < 2 ^ 53"
    using Cons.prems(8) by (simp add: ks)
  have ck: "\<bar>c + k\<bar> < 2 ^ 53"
    using bound nonneg Cons.prems(5,6,7) by linarith
  have chg: "total_change (add_transaction st t) = Finite (of_int (c + k))"
    using Cons.prems(2) t float_add_ints[OF ck]
    by (simp add: add_transaction_def Let_def)
  show ?case
  proof (cases "0 < k")
    case True
    have ik: "\<bar>i + k\<bar> < 2 ^ 53"
      using bound nonneg Cons.prems(6,7) True by linarith
    have inf: "total_inflow (add_transaction st t) = Finite (of_int (i + k))"
      using Cons.prems(3) t True float_add_ints[OF ik]
      by (simp add: add_transaction_def Let_def)
    have out: "total_outflow (add_transaction st t) = Finite (of_int d)"
      using Cons.prems(4) t True by (simp add: add_transaction_def Let_def)
    have "\<exists>c' i' d'.
           total_change (foldl add_transaction (add_transaction st t) ts) = Finite (of_int c')
           \<and> total_inflow (foldl add_transaction (add_transaction st t) ts) = Finite (of_int i')
           \<and> total_outflow (foldl add_transaction (add_transaction st t) ts) = Finite (of_int d')
           \<and> c' = i' + d' \<and> 0 \<le> i' \<and> d' \<le> 0 \<and> i' - d' < 2 ^ 53"
      using Cons.prems(5,6,7) True bound
      by (intro Cons.IH[OF ts chg inf out]) auto
    then show ?thesis by simp
  next
    case False
    have dk: "\<bar>d + k\<bar> < 2 ^ 53"
      using bound nonneg Cons.prems(6,7) False by linarith
    have inf: "total_inflow (add_transaction st t) = Finite (of_int i)"
      using Cons.prems(3) t False by (simp add: add_transaction_def Let_def)
    have out: "total_outflow (add_transaction st t) = Finite (of_int (d + k))"
      using Cons.prems(4) t False float_add_ints[OF dk]
      by (simp add: add_transaction_def Let_def)
    have "\<exists>c' i' d'.
           total_change (foldl add_transaction (add_transaction st t) ts) = Finite (of_int c')
           \<and> total_inflow (foldl add_transaction (add_transaction st t) ts) = Finite (of_int i')
           \<and> total_outflow (foldl add_transaction (add_transaction st t) ts) = Finite (of_int d')
           \<and> c' = i' + d' \<and> 0 \<le> i' \<and> d' \<le> 0 \<and> i' - d' < 2 ^ 53"
      using Cons.prems(5,6,7) False bound
      by (intro Cons.IH[OF ts chg inf out]) auto
    then show ?thesis by simp
  qed
qed

lemma exact_totals_consistent:
  assumes "map amount (parse_statement pdf) = map (\<lambda>k. Finite (of_int k)) ks"
    and "sum_list (map abs ks) < 2 ^ 53"
  shows "float_eq (total_change (fst (parse_statement_try pdf)))
           (float_add (total_inflow (fst (parse_statement_try pdf)))
                      (total_outflow (fst (parse_statement_try pdf))))"
proof -
  have "\<exists>c' i' d'.
           total_change (foldl add_transaction initial_run (parse_statement pdf))
             = Finite (of_int c')
           \<and> total_inflow (foldl add_transaction initial_run (parse_statement pdf))
             = Finite (of_int i')
           \<and> total_outflow (foldl add_transaction initial_run (parse_statement pdf))
             = Finite (of_int d')
           \<and> c' = i' + d' \<and> 0 \<le> i' \<and> d' \<le> 0 \<and> i' - d' < 2 ^ 53"
    using assms(2)
    by (intro exact_run[OF assms(1), of initial_run 0 0 0]) (auto simp: initial_run_def)
  then obtain c' i' d' where
    r: "total_change (fst (parse_statement_try pdf)) = Finite (of_int c')"
       "total_inflow (fst (parse_statement_try pdf)) = Finite (of_int i')"
       "total_outflow (fst (parse_statement_try pdf)) = Finite (of_int d')"
       "c' = i' + d'" "0 \<le> i'" "d' \<le> 0" "i' - d' < 2 ^ 53"
    unfolding try_state_flat by blast
  have "\<bar>i' + d'\<bar> < 2 ^ 53"
    using r(5,6,7) by linarith
  from float_add_ints[OF this] show ?thesis
    by (simp add: r float_eq_def)
qed


lemma amount_plus_0_1:
  "parse_amount (Some (ascii ''+ 0,1 '' @ [0x20B8]))
   = Inr (Finite (3602879701896397 / 36028797018963968))"
  by (simp add: ascii_def amount_eval class_eval round_eval)

lemma amount_minus_0_1:
  "parse_amount (Some (ascii ''- 0,1 '' @ [0x20B8]))
   = Inr (Finite (- (3602879701896397 / 36028797018963968)))"
  by (simp add: ascii_def amount_eval class_eval round_eval)

lemma amount_plus_0_2:
  "parse_amount (Some (ascii ''+ 0,2 '' @ [0x20B8]))
   = Inr (Finite (3602879701896397 / 18014398509481984))"
  by (simp add: ascii_def amount_eval class_eval round_eval)

lemma header_english:
  "is_header_table
     ([Some (ascii ''Date''), Some (ascii ''Amount''), Some (ascii ''Transaction''),
       Some (ascii ''Details'')] # rows) = Inr True"
  by (simp add: is_header_table_def TRANSACTION_TABLE_HEADER_VARIANTS_def)

lemma one_table_statement:
  "parse_statement_try
     (Inr [Inr [[Some (ascii ''Date''), Some (ascii ''Amount''), Some (ascii ''Transaction''),
                 Some (ascii ''Details'')] # rows]])
   = (foldl add_transaction initial_run (get_transactions rows), None)"
  by (simp add: parse_statement_try_def get_transaction_tables_def header_english)

text \<open>
  A left-to-right floating-point sum all of whose partial sums are floats (rounding leaves
  them alone) is the exact sum: no addition rounds.
\<close>

lemma foldl_float_add_exact:
  assumes "\<forall>n\<le>length qs. round_to_double (c + sum_list (take n qs))
                             = Finite (c + sum_list (take n qs))"
  shows "foldl float_add (Finite c) (map Finite qs) = Finite (c + sum_list qs)"
  using assms
proof (induction qs arbitrary: c)
  case Nil
  then show ?case by simp
next
  case (Cons q qs)
  have "Suc 0 \<le> length (q # qs)"
    by simp
  from Cons.prems[rule_format, OF this]
  have s1: "round_to_double (c + q) = Finite (c + q)"
    by simp
  have "\<forall>n\<le>length qs. round_to_double ((c + q) + sum_list (take n qs))
                           = Finite ((c + q) + sum_list (take n qs))"
  proof (intro allI impI)
    fix n
    assume "n \<le> length qs"
    then have "Suc n \<le> length (q # qs)"
      by simp
    from Cons.prems[rule_format, OF this]
    show "round_to_double ((c + q) + sum_list (take n qs))
          = Finite ((c + q) + sum_list (take n qs))"
      by (simp add: add.assoc)
  qed
  from Cons.IH[OF this] show ?case
    by (simp add: s1 add.assoc)
qed

lemma filter_gt0_Finite:
  "filter float_gt0 (map Finite qs) = map Finite (filter (\<lambda>q. 0 < q) qs)"
  by (induction qs) auto

lemma filter_not_gt0_Finite:
  "filter (\<lambda>a. \<not> float_gt0 a) (map Finite qs) = map Finite (filter (\<lambda>q. \<not> 0 < q) qs)"
  by (induction qs) auto

lemma sum_list_split:
  "sum_list (filter P qs) + sum_list (filter (\<lambda>q. \<not> P q) qs) = sum_list (qs :: rat list)"
  by (induction qs) auto

lemma exact_sums_consistent:
  assumes am: "map amount (parse_statement pdf) = map Finite qs"
    and ex: "\<forall>xs\<in>{qs, filter (\<lambda>q. 0 < q) qs, filter (\<lambda>q. \<not> 0 < q) qs}.
               \<forall>n\<le>length xs. round_to_double (sum_list (take n xs))
                                = Finite (sum_list (take n xs))"
  shows "total_change (fst (parse_statement_try pdf)) = Finite (sum_list qs)"
    and "total_inflow (fst (parse_statement_try pdf))
         = Finite (sum_list (filter (\<lambda>q. 0 < q) qs))"
    and "total_outflow (fst (parse_statement_try pdf))
         = Finite (sum_list (filter (\<lambda>q. \<not> 0 < q) qs))"
    and "float_eq (total_change (fst (parse_statement_try pdf)))
           (float_add (total_inflow (fst (parse_statement_try pdf)))
                      (total_outflow (fst (parse_statement_try pdf))))"
proof -
  have e: "\<And>xs. xs \<in> {qs, filter (\<lambda>q. 0 < q) qs, filter (\<lambda>q. \<not> 0 < q) qs} \<Longrightarrow>
             foldl float_add (Finite 0) (map Finite xs) = Finite (sum_list xs)"
  proof -
    fix xs
    assume "xs \<in> {qs, filter (\<lambda>q. 0 < q) qs, filter (\<lambda>q. \<not> 0 < q) qs}"
    with ex have "\<forall>n\<le>length xs. round_to_double (sum_list (take n xs))
                                  = Finite (sum_list (take n xs))"
      by blast
    then have "\<forall>n\<le>length xs. round_to_double (0 + sum_list (take n xs))
                                  = Finite (0 + sum_list (take n xs))"
      by simp
    from foldl_float_add_exact[OF this]
    show "foldl float_add (Finite 0) (map Finite xs) = Finite (sum_list xs)"
      by simp
  qed
  note f = totals_are_folds[of initial_run "parse_statement pdf", unfolded am]
  show c: "total_change (fst (parse_statement_try pdf)) = Finite (sum_list qs)"
    using f e[of qs] by (simp add: try_state_flat initial_run_def)
  show i: "total_inflow (fst (parse_statement_try pdf))
         = Finite (sum_list (filter (\<lambda>q. 0 < q) qs))"
    using f e[of "filter (\<lambda>q. 0 < q) qs"]
    by (simp add: try_state_flat initial_run_def filter_gt0_Finite)
  show d: "total_outflow (fst (parse_statement_try pdf))
         = Finite (sum_list (filter (\<lambda>q. \<not> 0 < q) qs))"
    using f e[of "filter (\<lambda>q. \<not> 0 < q) qs"]
    by (simp add: try_state_flat initial_run_def filter_not_gt0_Finite)
  have "round_to_double (sum_list qs) = Finite (sum_list qs)"
    using ex[rule_format, of qs "length qs"] by simp
  then show "float_eq (total_change (fst (parse_statement_try pdf)))
           (float_add (total_inflow (fst (parse_statement_try pdf)))
                      (total_outflow (fst (parse_statement_try pdf))))"
    by (simp add: c i d float_eq_def sum_list_split)
qed

lemma amount_minus_250_50:
  "parse_amount (Some (ascii ''- 250,50 '' @ [0x20B8])) = Inr (Finite (- (501 / 2)))"
  by (simp add: ascii_def amount_eval class_eval round_eval)

lemma row_shop_250_50:
  "make_transaction
     [Some (ascii ''02.03.24''), Some (ascii ''- 250,50 '' @ [0x20B8]),
      Some (ascii ''Purchase''), Some (ascii ''Shop'')]
   = Inr \<lparr>date = \<lparr>year = 2024, month = 3, day = 2\<rparr>, payee = Some (ascii ''Shop''),
          memo = [], amount = Finite (- (501 / 2))\<rparr>"
  by (simp add: make_transaction_def date_020324 amount_minus_250_50)

text \<open>
  Claim C7 fails as stated: the three amounts 0.1, -0.1 and 0.2 give a net change of
  0.2 but an inflow of 0.30000000000000004 and an outflow of -0.1, whose sum is
  0.20000000000000004.  The run completes without an exception.
\<close>

theorem totals_consistency_counterexample:
  "snd (parse_statement_try
     (Inr [Inr [[[Some (ascii ''Date''), Some (ascii ''Amount''), Some (ascii ''Transaction''),
                  Some (ascii ''Details'')],
                 [Some (ascii ''01.03.24''), Some (ascii ''+ 0,1 '' @ [0x20B8]),
                  Some (ascii ''Transfer''), Some (ascii ''Alice'')],
                 [Some (ascii ''02.03.24''), Some (ascii ''- 0,1 '' @ [0x20B8]),
                  Some (ascii ''Purchase''), Some (ascii ''Shop'')],
                 [Some (ascii ''03.03.24''), Some (ascii ''+ 0,2 '' @ [0x20B8]),
                  Some (ascii ''Transfer''), Some (ascii ''Alice'')]]]])) = None
   \<and> \<not> float_eq
        (total_change (fst (parse_statement_try
          (Inr [Inr [[[Some (ascii ''Date''), Some (ascii ''Amount''),
                       Some (ascii ''Transaction''), Some (ascii ''Details'')],
                      [Some (ascii ''01.03.24''), Some (ascii ''+ 0,1 '' @ [0x20B8]),
                       Some (ascii ''Transfer''), Some (ascii ''Alice'')],
                      [Some (ascii ''02.03.24''), Some (ascii ''- 0,1 '' @ [0x20B8]),
                       Some (ascii ''Purchase''), Some (ascii ''Shop'')],
                      [Some (ascii ''03.03.24''), Some (ascii ''+ 0,2 '' @ [0x20B8]),
                       Some (ascii ''Transfer''), Some (ascii ''Alice'')]]]]))))
        (float_add
          (total_inflow (fst (parse_statement_try
            (Inr [Inr [[[Some (ascii ''Date''), Some (ascii ''Amount''),
                         Some (ascii ''Transaction''), Some (ascii ''Details'')],
                        [Some (ascii ''01.03.24''), Some (ascii ''+ 0,1 '' @ [0x20B8]),
                         Some (ascii ''Transfer''), Some (ascii ''Alice'')],
                        [Some (ascii ''02.03.24''), Some (ascii ''- 0,1 '' @ [0x20B8]),
                         Some (ascii ''Purchase''), Some (ascii ''Shop'')],
                        [Some (ascii ''03.03.24''), Some (ascii ''+ 0,2 '' @ [0x20B8]),
                         Some (ascii ''Transfer''), Some (ascii ''Alice'')]]]]))))
          (total_outflow (fst (parse_statement_try
            (Inr [Inr [[[Some (ascii ''Date''), Some (ascii ''Amount''),
                         Some (ascii ''Transaction''), Some (ascii ''Details'')],
                        [Some (ascii ''01.03.24''), Some (ascii ''+ 0,1 '' @ [0x20B8]),
                         Some (ascii ''Transfer''), Some (ascii ''Alice'')],
                        [Some (ascii ''02.03.24''), Some (ascii ''- 0,1 '' @ [0x20B8]),
                         Some (ascii ''Purchase''), Some (ascii ''Shop'')],
                        [Some (ascii ''03.03.24''), Some (ascii ''+ 0,2 '' @ [0x20B8]),
                         Some (ascii ''Transfer''), Some (ascii ''Alice'')]]]])))))"
  by (simp add: one_table_statement make_transaction_def date_010324 date_020324 date_030324
        amount_plus_0_1 amount_minus_0_1 amount_plus_0_2 add_transaction_def initial_run_def
        float_eq_def round_eval)

text \<open>
  Claim C7, amended.  The count is the length of the returned list.  The net change is the
  floating-point sum, from left to right, of all amounts; the inflow that of the amounts
  greater than zero; the outflow that of the other amounts, zero among them.  When no
  addition of the run rounds, that is, when the amounts are finite and every partial sum
  of all amounts, of the amounts greater than zero and of the other amounts is itself a
  float, the three totals are the exact sums and the net change equals inflow plus
  outflow.  This is so in particular when every amount is a whole number and the
  magnitudes add up to less than \<open>2\<^sup>5\<^sup>3\<close>.
\<close>

theorem totals_consistency:
  "length (transactions (fst (parse_statement_try pdf))) = length (parse_statement pdf)
   \<and> total_change (fst (parse_statement_try pdf))
     = foldl float_add (Finite 0) (map amount (parse_statement pdf))
   \<and> total_inflow (fst (parse_statement_try pdf))
     = foldl float_add (Finite 0) (filter float_gt0 (map amount (parse_statement pdf)))
   \<and> total_outflow (fst (parse_statement_try pdf))
     = foldl float_add (Finite 0)
         (filter (\<lambda>a. \<not> float_gt0 a) (map amount (parse_statement pdf)))
   \<and> (map amount (parse_statement pdf) = map Finite qs
      \<and> (\<forall>xs\<in>{qs, filter (\<lambda>q. 0 < q) qs, filter (\<lambda>q. \<not> 0 < q) qs}.
            \<forall>n\<le>length xs. round_to_double (sum_list (take n xs))
                             = Finite (sum_list (take n xs))) \<longrightarrow>
      total_change (fst (parse_statement_try pdf)) = Finite (sum_list qs)
      \<and> total_inflow (fst (parse_statement_try pdf))
        = Finite (sum_list (filter (\<lambda>q. 0 < q) qs))
      \<and> total_outflow (fst (parse_statement_try pdf))
        = Finite (sum_list (filter (\<lambda>q. \<not> 0 < q) qs))
      \<and> float_eq (total_change (fst (parse_statement_try pdf)))
          (float_add (total_inflow (fst (parse_statement_try pdf)))
                     (total_outflow (fst (parse_statement_try pdf)))))
   \<and> (map amount (parse_statement pdf) = map (\<lambda>k. Finite (of_int k)) ks
      \<and> sum_list (map abs ks) < 2 ^ 53 \<longrightarrow>
      float_eq (total_change (fst (parse_statement_try pdf)))
        (float_add (total_inflow (fst (parse_statement_try pdf)))
                   (total_outflow (fst (parse_statement_try pdf)))))"
proof (intro conjI impI)
  show "length (transactions (fst (parse_statement_try pdf))) = length (parse_statement pdf)"
    by (simp add: parse_statement_def)
  show "total_change (fst (parse_statement_try pdf))
     = foldl float_add (Finite 0) (map amount (parse_statement pdf))"
    using totals_are_folds[of initial_run "parse_statement pdf"]
    by (simp add: try_state_flat initial_run_def)
  show "total_inflow (fst (parse_statement_try pdf))
     = foldl float_add (Finite 0) (filter float_gt0 (map amount (parse_statement pdf)))"
    using totals_are_folds[of initial_run "parse_statement pdf"]
    by (simp add: try_state_flat initial_run_def)
  show "total_outflow (fst (parse_statement_try pdf))
     = foldl float_add (Finite 0)
         (filter (\<lambda>a. \<not> float_gt0 a) (map amount (parse_statement pdf)))"
    using totals_are_folds[of initial_run "parse_statement pdf"]
    by (simp add: try_state_flat initial_run_def)
next
  assume h: "map amount (parse_statement pdf) = map Finite qs
      \<and> (\<forall>xs\<in>{qs, filter (\<lambda>q. 0 < q) qs, filter (\<lambda>q. \<not> 0 < q) qs}.
            \<forall>n\<le>length xs. round_to_double (sum_list (take n xs))
                             = Finite (sum_list (take n xs)))"
  from h have am: "map amount (parse_statement pdf) = map Finite qs" ..
  from h have ex: "\<forall>xs\<in>{qs, filter (\<lambda>q. 0 < q) qs, filter (\<lambda>q. \<not> 0 < q) qs}.
            \<forall>n\<le>length xs. round_to_double (sum_list (take n xs))
                             = Finite (sum_list (take n xs))" ..
  show "total_change (fst (parse_statement_try pdf)) = Finite (sum_list qs)"
    by (rule exact_sums_consistent(1)[OF am ex])
  show "total_inflow (fst (parse_statement_try pdf))
        = Finite (sum_list (filter (\<lambda>q. 0 < q) qs))"
    by (rule exact_sums_consistent(2)[OF am ex])
  show "total_outflow (fst (parse_statement_try pdf))
        = Finite (sum_list (filter (\<lambda>q. \<not> 0 < q) qs))"
    by (rule exact_sums_consistent(3)[OF am ex])
  show "float_eq (total_change (fst (parse_statement_try pdf)))
          (float_add (total_inflow (fst (parse_statement_try pdf)))
                     (total_outflow (fst (parse_statement_try pdf))))"
    by (rule exact_sums_consistent(4)[OF am ex])
next
  assume "map amount (parse_statement pdf) = map (\<lambda>k. Finite (of_int k)) ks
      \<and> sum_list (map abs ks) < 2 ^ 53"
  then show "float_eq (total_change (fst (parse_statement_try pdf)))
        (float_add (total_inflow (fst (parse_statement_try pdf)))
                   (total_outflow (fst (parse_statement_try pdf))))"
    using exact_totals_consistent[of pdf ks] by blast
qed

text \<open>
  The amounts 1000.5 and -250.5 are not whole numbers, but no addition rounds: the net
  change is 750, the inflow 1000.5 and the outflow -250.5.  The amount -250 alone is a
  whole number.
\<close>

theorem totals_consistency_witness:
  "total_change (fst (parse_statement_try
      (Inr [Inr [[[Some (ascii ''Date''), Some (ascii ''Amount''),
                   Some (ascii ''Transaction''), Some (ascii ''Details'')],
                  [Some (ascii ''01.03.24''), Some (ascii ''+ 1 000,50 '' @ [0x20B8]),
                   Some (ascii ''Transfer''), Some (ascii ''Alice'')],
                  [Some (ascii ''02.03.24''), Some (ascii ''- 250,50 '' @ [0x20B8]),
                   Some (ascii ''Purchase''), Some (ascii ''Shop'')]]]]))) = Finite 750
   \<and> total_inflow (fst (parse_statement_try
      (Inr [Inr [[[Some (ascii ''Date''), Some (ascii ''Amount''),
                   Some (ascii ''Transaction''), Some (ascii ''Details'')],
                  [Some (ascii ''01.03.24''), Some (ascii ''+ 1 000,50 '' @ [0x20B8]),
                   Some (ascii ''Transfer''), Some (ascii ''Alice'')],
                  [Some (ascii ''02.03.24''), Some (ascii ''- 250,50 '' @ [0x20B8]),
                   Some (ascii ''Purchase''), Some (ascii ''Shop'')]]]]))) = Finite (2001 / 2)
   \<and> total_outflow (fst (parse_statement_try
      (Inr [Inr [[[Some (ascii ''Date''), Some (ascii ''Amount''),
                   Some (ascii ''Transaction''), Some (ascii ''Details'')],
                  [Some (ascii ''01.03.24''), Some (ascii ''+ 1 000,50 '' @ [0x20B8]),
                   Some (ascii ''Transfer''), Some (ascii ''Alice'')],
                  [Some (ascii ''02.03.24''), Some (ascii ''- 250,50 '' @ [0x20B8]),
                   Some (ascii ''Purchase''), Some (ascii ''Shop'')]]]])))
     = Finite (- (501 / 2))
   \<and> float_eq
       (total_change (fst (parse_statement_try
          (Inr [Inr [[[Some (ascii ''Date''), Some (ascii ''Amount''),
                       Some (ascii ''Transaction''), Some (ascii ''Details'')],
                      [Some (ascii ''01.03.24''), Some (ascii ''+ 1 000,50 '' @ [0x20B8]),
                       Some (ascii ''Transfer''), Some (ascii ''Alice'')],
                      [Some (ascii ''02.03.24''), Some (ascii ''- 250,50 '' @ [0x20B8]),
                       Some (ascii ''Purchase''), Some (ascii ''Shop'')]]]]))))
       (float_add
          (total_inflow (fst (parse_statement_try
             (Inr [Inr [[[Some (ascii ''Date''), Some (ascii ''Amount''),
                          Some (ascii ''Transaction''), Some (ascii ''Details'')],
                         [Some (ascii ''01.03.24''), Some (ascii ''+ 1 000,50 '' @ [0x20B8]),
                          Some (ascii ''Transfer''), Some (ascii ''Alice'')],
                         [Some (ascii ''02.03.24''), Some (ascii ''- 250,50 '' @ [0x20B8]),
                          Some (ascii ''Purchase''), Some (ascii ''Shop'')]]]]))))
          (total_outflow (fst (parse_statement_try
             (Inr [Inr [[[Some (ascii ''Date''), Some (ascii ''Amount''),
                          Some (ascii ''Transaction''), Some (ascii ''Details'')],
                         [Some (ascii ''01.03.24''), Some (ascii ''+ 1 000,50 '' @ [0x20B8]),
                          Some (ascii ''Transfer''), Some (ascii ''Alice'')],
                         [Some (ascii ''02.03.24''), Some (ascii ''- 250,50 '' @ [0x20B8]),
                          Some (ascii ''Purchase''), Some (ascii ''Shop'')]]]])))))
   \<and> float_eq
     (total_change (fst (parse_statement_try
        (Inr [Inr [[[Some (ascii ''Date''), Some (ascii ''Amount''),
                     Some (ascii ''Transaction''), Some (ascii ''Details'')],
                    [Some (ascii ''02.03.24''), Some (ascii ''- 250 '' @ [0x20B8]),
                     Some (ascii ''Purchase''), Some (ascii ''Shop'')]]]]))))
     (float_add
        (total_inflow (fst (parse_statement_try
           (Inr [Inr [[[Some (ascii ''Date''), Some (ascii ''Amount''),
                        Some (ascii ''Transaction''), Some (ascii ''Details'')],
                       [Some (ascii ''02.03.24''), Some (ascii ''- 250 '' @ [0x20B8]),
                        Some (ascii ''Purchase''), Some (ascii ''Shop'')]]]]))))
        (total_outflow (fst (parse_statement_try
           (Inr [Inr [[[Some (ascii ''Date''), Some (ascii ''Amount''),
                        Some (ascii ''Transaction''), Some (ascii ''Details'')],
                       [Some (ascii ''02.03.24''), Some (ascii ''- 250 '' @ [0x20B8]),
                        Some (ascii ''Purchase''), Some (ascii ''Shop'')]]]])))))"
proof -
  let ?frac = "Inr [Inr [[[Some (ascii ''Date''), Some (ascii ''Amount''),
                     Some (ascii ''Transaction''), Some (ascii ''Details'')],
                    [Some (ascii ''01.03.24''), Some (ascii ''+ 1 000,50 '' @ [0x20B8]),
                     Some (ascii ''Transfer''), Some (ascii ''Alice'')],
                    [Some (ascii ''02.03.24''), Some (ascii ''- 250,50 '' @ [0x20B8]),
                     Some (ascii ''Purchase''), Some (ascii ''Shop'')]]]]"
  let ?pdf = "Inr [Inr [[[Some (ascii ''Date''), Some (ascii ''Amount''),
                     Some (ascii ''Transaction''), Some (ascii ''Details'')],
                    [Some (ascii ''02.03.24''), Some (ascii ''- 250 '' @ [0x20B8]),
                     Some (ascii ''Purchase''), Some (ascii ''Shop'')]]]]"
  let ?qs = "[2001 / 2, - (501 / 2)] :: rat list"
  have fs: "map amount (parse_statement ?frac) = map Finite ?qs"
    by (simp add: parse_statement_def one_table_statement row_alice row_shop_250_50
          initial_run_def add_transaction_def)
  have r: "round_to_double 0 = Finite 0" "round_to_double (2001 / 2) = Finite (2001 / 2)"
    "round_to_double (- (501 / 2)) = Finite (- (501 / 2))" "round_to_double 750 = Finite 750"
    by (simp_all add: round_eval)
  have two: "\<And>n. n \<le> Suc (Suc 0) \<longleftrightarrow> n = 0 \<or> n = Suc 0 \<or> n = Suc (Suc 0)"
    by linarith
  have one: "\<And>n. n \<le> Suc 0 \<longleftrightarrow> n = 0 \<or> n = Suc 0"
    by linarith
  have ex: "\<forall>xs\<in>{?qs, filter (\<lambda>q. 0 < q) ?qs, filter (\<lambda>q. \<not> 0 < q) ?qs}.
              \<forall>n\<le>length xs. round_to_double (sum_list (take n xs))
                               = Finite (sum_list (take n xs))"
    using r by (auto simp: one two)
  have ps: "map amount (parse_statement ?pdf) = map (\<lambda>k. Finite (of_int k)) [- 250]"
    by (simp add: parse_statement_def one_table_statement row_shop initial_run_def
          add_transaction_def)
  have sm: "sum_list (map abs [- 250 :: int]) < 2 ^ 53"
    by simp
  have a: "total_change (fst (parse_statement_try ?frac)) = Finite (sum_list ?qs)
      \<and> total_inflow (fst (parse_statement_try ?frac))
        = Finite (sum_list (filter (\<lambda>q. 0 < q) ?qs))
      \<and> total_outflow (fst (parse_statement_try ?frac))
        = Finite (sum_list (filter (\<lambda>q. \<not> 0 < q) ?qs))
      \<and> float_eq (total_change (fst (parse_statement_try ?frac)))
          (float_add (total_inflow (fst (parse_statement_try ?frac)))
                     (total_outflow (fst (parse_statement_try ?frac))))"
    using totals_consistency[of ?frac ?qs] fs ex by blast
  have b: "float_eq (total_change (fst (parse_statement_try ?pdf)))
        (float_add (total_inflow (fst (parse_statement_try ?pdf)))
                   (total_outflow (fst (parse_statement_try ?pdf))))"
    using totals_consistency[of ?pdf _ "[- 250]"] ps sm by blast
  have v: "sum_list ?qs = 750" "sum_list (filter (\<lambda>q. 0 < q) ?qs) = 2001 / 2"
    "sum_list (filter (\<lambda>q. \<not> 0 < q) ?qs) = - (501 / 2)"
    by simp_all
  show ?thesis
    using a b unfolding v by blast
qed

section \<open>Properties of the export\<close>














section \<open>Properties of the amount pattern\<close>

lemma cclass_iff: "(m, r) \<in> set (cclass P s) \<longleftrightarrow> (\<exists>c. m = [c] \<and> P c \<and> s = c # r)"
  by (cases s) auto

lemma cstar_iff: "(m, r) \<in> set (cstar P s) \<longleftrightarrow> s = m @ r \<and> (\<forall>c\<in>set m. P c)"
proof (induction s arbitrary: m)
  case Nil
  then show ?case by auto
next
  case (Cons a s)
  have img: "\<And>b m' X. (b # m', r) \<in> (\<lambda>(m, r). (a # m, r)) ` X \<longleftrightarrow> b = a \<and> (m', r) \<in> X"
    by force
  have nil: "\<And>X. ([], r) \<notin> (\<lambda>(m, r). (a # m, r)) ` X"
    by force
  show ?case
  proof (cases m)
    case Nil
    then show ?thesis by (auto simp: nil)
  next
    case (Cons b m')
    then show ?thesis by (auto simp: img Cons.IH)
  qed
qed

lemma cplus_iff:
  "(m, r) \<in> set (cplus P s) \<longleftrightarrow> s = m @ r \<and> m \<noteq> [] \<and> (\<forall>c\<in>set m. P c)"
proof (cases s)
  case Nil
  then show ?thesis by auto
next
  case (Cons a s')
  have img: "\<And>b m' X. (b # m', r) \<in> (\<lambda>(m, r). (a # m, r)) ` X \<longleftrightarrow> b = a \<and> (m', r) \<in> X"
    by force
  have nil: "\<And>X. ([], r) \<notin> (\<lambda>(m, r). (a # m, r)) ` X"
    by force
  show ?thesis
  proof (cases m)
    case Nil
    then show ?thesis using Cons by (auto simp: nil)
  next
    case (Cons b m')
    then show ?thesis using \<open>s = a # s'\<close> by (auto simp: img cstar_iff)
  qed
qed

text \<open>The matches of the amount pattern are the ways to cut the subject into its parts.\<close>

lemma AMOUNT_PATTERN_iff:
  "((sg, a, cur), r) \<in> set (AMOUNT_PATTERN s) \<longleftrightarrow>
     (\<exists>c w. s = c # w @ a @ [32] @ cur @ r \<and> sg = [c] \<and> (c = 43 \<or> c = 45)
            \<and> (\<forall>x\<in>set w. is_space x)
            \<and> a \<noteq> [] \<and> (\<forall>x\<in>set a. amount_class x)
            \<and> cur \<noteq> [] \<and> (\<forall>x\<in>set cur. \<not> is_space x)
            \<and> dollar r)"
proof -
  have "((sg, a, cur), r) \<in> set (AMOUNT_PATTERN s) \<longleftrightarrow>
    (\<exists>r1 ws r2 r3 sp r4.
       (sg, r1) \<in> set (cclass (\<lambda>c. c = 43 \<or> c = 45) s)
       \<and> (ws, r2) \<in> set (cstar is_space r1)
       \<and> (a, r3) \<in> set (cplus amount_class r2)
       \<and> (sp, r4) \<in> set (cclass (\<lambda>c. c = 32) r3)
       \<and> (cur, r) \<in> set (cplus (\<lambda>c. \<not> is_space c) r4)
       \<and> dollar r)"
    unfolding AMOUNT_PATTERN_def by (auto simp: Bex_def) blast+
  also have "\<dots> \<longleftrightarrow>
     (\<exists>c w. s = c # w @ a @ [32] @ cur @ r \<and> sg = [c] \<and> (c = 43 \<or> c = 45)
            \<and> (\<forall>x\<in>set w. is_space x)
            \<and> a \<noteq> [] \<and> (\<forall>x\<in>set a. amount_class x)
            \<and> cur \<noteq> [] \<and> (\<forall>x\<in>set cur. \<not> is_space x)
            \<and> dollar r)"
    unfolding cclass_iff cstar_iff cplus_iff by auto
  finally show ?thesis .
qed


lemma range_cases:
  "(8192::nat) \<le> c \<Longrightarrow> c \<le> 8202 \<Longrightarrow>
   c = 8192 \<or> c = 8193 \<or> c = 8194 \<or> c = 8195 \<or> c = 8196 \<or> c = 8197 \<or> c = 8198
   \<or> c = 8199 \<or> c = 8200 \<or> c = 8201 \<or> c = 8202"
  by arith

lemma space_values_not_digits:
  "\<forall>v\<in>set [9, 10, 11, 12, 13, 28, 29, 30, 31, 32, 133, 160, 5760, 8192, 8193, 8194, 8195,
             8196, 8197, 8198, 8199, 8200, 8201, 8202, 8232, 8233, 8239, 8287, 12288].
     \<not> is_digit v"
  by (simp add: is_digit_def decimal_value_def decimal_run_starts_def)

text \<open>No white space character is a decimal digit.\<close>

lemma digit_not_space:
  assumes "is_space c"
  shows "\<not> is_digit c"
proof -
  have "c \<in> set [9, 10, 11, 12, 13, 28, 29, 30, 31, 32, 133, 160, 5760, 8192, 8193, 8194, 8195,
             8196, 8197, 8198, 8199, 8200, 8201, 8202, 8232, 8233, 8239, 8287, 12288]"
    using assms range_cases[of c] unfolding is_space_def by (simp del: One_nat_def) blast
  with space_values_not_digits show ?thesis by blast
qed

lemma amount_space_is_32: "amount_class c \<Longrightarrow> is_space c \<Longrightarrow> c = 32"
  using digit_not_space[of c] by (auto simp: amount_class_def is_space_def)

lemma amount_class_not_newline: "amount_class c \<Longrightarrow> c \<noteq> 10"
  using digit_not_space[of 10] by (auto simp: amount_class_def is_space_def)

lemma spaces_normalised: "\<forall>x\<in>set u. x = 32 \<Longrightarrow> normalised u = []"
  by (induction u) auto

lemma last_space_unique:
  assumes "x @ 32 # y = x' @ 32 # y'"
    and "\<forall>c\<in>set y. \<not> is_space c" and "\<forall>c\<in>set y'. \<not> is_space c"
  shows "x = x' \<and> y = y'"
proof -
  have sp: "is_space 32" by (simp add: is_space_def)
  from assms(1) obtain u where
    u: "(x = x' @ u \<and> u @ 32 # y = 32 # y') \<or> (x @ u = x' \<and> 32 # y = u @ 32 # y')"
    by (auto simp: append_eq_append_conv2)
  show ?thesis
  proof (cases u)
    case Nil
    with u show ?thesis by auto
  next
    case (Cons b u')
    with u have "32 \<in> set y \<or> 32 \<in> set y'" by auto
    with assms(2,3) sp show ?thesis by auto
  qed
qed

lemma prefix_spaces_normalised:
  assumes "w @ a = w' @ a'"
    and "\<forall>x\<in>set w. is_space x" and "\<forall>x\<in>set w'. is_space x"
    and "\<forall>x\<in>set a. amount_class x" and "\<forall>x\<in>set a'. amount_class x"
  shows "normalised a = normalised a'"
proof -
  from assms(1) obtain u where
    u: "(w = w' @ u \<and> u @ a = a') \<or> (w @ u = w' \<and> a = u @ a')"
    by (auto simp: append_eq_append_conv2)
  then show ?thesis
  proof
    assume h: "w = w' @ u \<and> u @ a = a'"
    then have "\<forall>x\<in>set u. x = 32"
      using assms(2,5) amount_space_is_32 by auto
    from spaces_normalised[OF this] h show ?thesis by auto
  next
    assume h: "w @ u = w' \<and> a = u @ a'"
    then have "\<forall>x\<in>set u. x = 32"
      using assms(3,4) amount_space_is_32 by auto
    from spaces_normalised[OF this] h show ?thesis by auto
  qed
qed

lemma dollar_no_newline: "dollar r \<Longrightarrow> 10 \<notin> set r \<Longrightarrow> r = []"
  by (auto simp: dollar_def)

text \<open>
  On a subject without a newline all matches agree on the sign, on the currency and, up to
  spaces, on the amount: the choice made by backtracking does not show in the result.
\<close>

lemma match_unique:
  assumes "((sg, a, cur), r) \<in> set (AMOUNT_PATTERN s)"
    and "((sg', a', cur'), r') \<in> set (AMOUNT_PATTERN s)"
    and "10 \<notin> set s"
  shows "sg = sg' \<and> cur = cur' \<and> normalised a = normalised a'"
proof -
  from assms(1) obtain c w where
    1: "s = c # w @ a @ [32] @ cur @ r" "sg = [c]" "\<forall>x\<in>set w. is_space x"
       "\<forall>x\<in>set a. amount_class x" "\<forall>x\<in>set cur. \<not> is_space x" "dollar r"
    unfolding AMOUNT_PATTERN_iff by blast
  from assms(2) obtain c' w' where
    2: "s = c' # w' @ a' @ [32] @ cur' @ r'" "sg' = [c']" "\<forall>x\<in>set w'. is_space x"
       "\<forall>x\<in>set a'. amount_class x" "\<forall>x\<in>set cur'. \<not> is_space x" "dollar r'"
    unfolding AMOUNT_PATTERN_iff by blast
  have r: "r = []"
    using 1(1,6) assms(3) by (intro dollar_no_newline) auto
  have r': "r' = []"
    using 2(1,6) assms(3) by (intro dollar_no_newline) auto
  have eq: "c = c'" "(w @ a) @ 32 # cur = (w' @ a') @ 32 # cur'"
    using 1(1) 2(1) r r' by auto
  from last_space_unique[OF eq(2) 1(5) 2(5)] have wa: "w @ a = w' @ a'" and cc: "cur = cur'"
    by auto
  from prefix_spaces_normalised[OF wa 1(3) 2(3) 1(4) 2(4)] eq(1) cc 1(2) 2(2)
  show ?thesis by simp
qed

lemma re_match_decomp:
  assumes "s = c # w @ a @ [32] @ cur" and "c = 43 \<or> c = 45"
    and "\<forall>x\<in>set w. is_space x"
    and "a \<noteq> []" and "\<forall>x\<in>set a. amount_class x"
    and "cur \<noteq> []" and "\<forall>x\<in>set cur. \<not> is_space x"
    and "10 \<notin> set s"
  shows "\<exists>a'. re_match AMOUNT_PATTERN s = Some ([c], a', cur) \<and> normalised a' = normalised a"
proof -
  have m: "(([c], a, cur), []) \<in> set (AMOUNT_PATTERN s)"
    unfolding AMOUNT_PATTERN_iff using assms by (auto simp: dollar_def)
  then obtain g r' rest where l: "AMOUNT_PATTERN s = (g, r') # rest"
    by (cases "AMOUNT_PATTERN s") auto
  obtain sg' a' cur' where g: "g = (sg', a', cur')"
    by (cases g) auto
  have "((sg', a', cur'), r') \<in> set (AMOUNT_PATTERN s)"
    by (simp add: l g)
  from match_unique[OF this m assms(8)] l g show ?thesis
    by (simp add: re_match_def)
qed

lemma re_match_none:
  "re_match AMOUNT_PATTERN s = None \<longleftrightarrow>
     \<not> (\<exists>c w a cur r. s = c # w @ a @ [32] @ cur @ r \<and> (c = 43 \<or> c = 45)
            \<and> (\<forall>x\<in>set w. is_space x)
            \<and> a \<noteq> [] \<and> (\<forall>x\<in>set a. amount_class x)
            \<and> cur \<noteq> [] \<and> (\<forall>x\<in>set cur. \<not> is_space x)
            \<and> dollar r)"
proof -
  have "re_match AMOUNT_PATTERN s = None \<longleftrightarrow> AMOUNT_PATTERN s = []"
    by (auto simp: re_match_def split: list.splits)
  also have "\<dots> \<longleftrightarrow> \<not> (\<exists>g r. (g, r) \<in> set (AMOUNT_PATTERN s))"
    by (cases "AMOUNT_PATTERN s") auto
  also have "\<dots> \<longleftrightarrow> \<not> (\<exists>sg a cur r. ((sg, a, cur), r) \<in> set (AMOUNT_PATTERN s))"
    by simp
  also have "\<dots> \<longleftrightarrow>
     \<not> (\<exists>c w a cur r. s = c # w @ a @ [32] @ cur @ r \<and> (c = 43 \<or> c = 45)
            \<and> (\<forall>x\<in>set w. is_space x)
            \<and> a \<noteq> [] \<and> (\<forall>x\<in>set a. amount_class x)
            \<and> cur \<noteq> [] \<and> (\<forall>x\<in>set cur. \<not> is_space x)
            \<and> dollar r)"
    unfolding AMOUNT_PATTERN_iff by blast
  finally show ?thesis .
qed


lemma first_line_no_newline: "10 \<notin> set (split_first_line str)"
  by (auto simp: split_first_line_def dest: set_takeWhileD)

lemma parse_amount_shape:
  assumes "amount_shape (split_first_line str) c w a cur"
  shows "parse_amount (Some str) =
           (if cur \<noteq> EXPECTED_CURRENCY then Inl CurrencyMismatch
            else case py_float (normalised a) of
                   None \<Rightarrow> Inl FloatConversionError
                 | Some v \<Rightarrow> Inr (if c = 43 then v else float_neg v))"
proof -
  from assms have sh: "split_first_line str = c # w @ a @ [32] @ cur" "c = 43 \<or> c = 45"
    "\<forall>x\<in>set w. is_space x" "a \<noteq> []" "\<forall>x\<in>set a. amount_class x"
    "cur \<noteq> []" "\<forall>x\<in>set cur. \<not> is_space x"
    by (auto simp: amount_shape_def)
  from re_match_decomp[OF sh first_line_no_newline] obtain a' where
    "re_match AMOUNT_PATTERN (split_first_line str) = Some ([c], a', cur)"
    "normalised a' = normalised a"
    by blast
  then show ?thesis
    by (auto simp: parse_amount_def split: option.splits)
qed

lemma parse_amount_format_error:
  "parse_amount (Some str) = Inl FormatError \<longleftrightarrow>
     \<not> (\<exists>c w a cur. amount_shape (split_first_line str) c w a cur)"
proof
  assume fe: "parse_amount (Some str) = Inl FormatError"
  show "\<not> (\<exists>c w a cur. amount_shape (split_first_line str) c w a cur)"
  proof
    assume "\<exists>c w a cur. amount_shape (split_first_line str) c w a cur"
    then obtain c w a cur where "amount_shape (split_first_line str) c w a cur"
      by blast
    from parse_amount_shape[OF this] fe show False
      by (auto split: if_splits option.splits)
  qed
next
  assume no: "\<not> (\<exists>c w a cur. amount_shape (split_first_line str) c w a cur)"
  have "re_match AMOUNT_PATTERN (split_first_line str) = None"
  proof (rule ccontr)
    assume "re_match AMOUNT_PATTERN (split_first_line str) \<noteq> None"
    then obtain c w a cur r where
      d: "split_first_line str = c # w @ a @ [32] @ cur @ r" "c = 43 \<or> c = 45"
         "\<forall>x\<in>set w. is_space x" "a \<noteq> []" "\<forall>x\<in>set a. amount_class x"
         "cur \<noteq> []" "\<forall>x\<in>set cur. \<not> is_space x" "dollar r"
      unfolding re_match_none by blast
    have "10 \<notin> set r"
      using first_line_no_newline[of str] d(1) by auto
    from dollar_no_newline[OF d(8) this] d have
      "amount_shape (split_first_line str) c w a cur"
      by (simp add: amount_shape_def)
    with no show False by blast
  qed
  then show "parse_amount (Some str) = Inl FormatError"
    by (simp add: parse_amount_def)
qed

lemma parse_amount_success:
  assumes "parse_amount (Some str) = Inr v"
  shows "\<exists>c w a v0. amount_shape (split_first_line str) c w a EXPECTED_CURRENCY
           \<and> py_float (normalised a) = Some v0
           \<and> v = (if c = 43 then v0 else float_neg v0)"
proof -
  from assms have "parse_amount (Some str) \<noteq> Inl FormatError"
    by simp
  then obtain c w a cur where sh: "amount_shape (split_first_line str) c w a cur"
    unfolding parse_amount_format_error by blast
  from parse_amount_shape[OF sh] assms have
    "cur = EXPECTED_CURRENCY"
    "\<exists>v0. py_float (normalised a) = Some v0 \<and> v = (if c = 43 then v0 else float_neg v0)"
    by (auto split: if_splits option.splits)
  with sh show ?thesis by blast
qed

subsection \<open>The literal\<close>

lemma pow2_pos: "0 < pow2 e"
  by (simp add: pow2_def)

lemma round_half_even_nonneg: "0 \<le> q \<Longrightarrow> 0 \<le> round_half_even q"
  by (auto simp: round_half_even_def Let_def)

lemma round_to_double_nonneg: "0 \<le> q \<Longrightarrow> float_ge0 (round_to_double q)"
proof -
  assume q: "0 \<le> q"
  have "0 \<le> \<bar>q\<bar> / pow2 x" for x
    using pow2_pos[of x] by simp
  then have "0 \<le> rat_of_int (round_half_even (\<bar>q\<bar> / pow2 x)) * pow2 x" for x
    using round_half_even_nonneg[of "\<bar>q\<bar> / pow2 x"] pow2_pos[of x] by simp
  then show ?thesis
    using q by (auto simp: round_to_double_def Let_def)
qed

lemma py_float_nonneg: "py_float s = Some v \<Longrightarrow> float_ge0 v"
  by (auto simp: py_float_def Let_def round_to_double_nonneg split: if_splits option.splits)

lemma float_ge0_neg: "float_ge0 v \<Longrightarrow> float_le0 (float_neg v) \<and> float_eq v (float_neg (float_neg v))"
  by (cases v) (auto simp: float_eq_def)

lemma float_neg_neg: "float_neg (float_neg v) = v"
  by (cases v) auto

lemma those_None_iff: "those xs = None \<longleftrightarrow> None \<in> set xs"
  by (induction xs) (auto split: option.splits)

lemma digits_value_None_iff: "digits_value ds = None \<longleftrightarrow> (\<exists>c\<in>set ds. \<not> is_digit c)"
proof -
  have "None \<in> decimal_value ` set ds \<longleftrightarrow> (\<exists>c\<in>set ds. decimal_value c = None)"
    by force
  then show ?thesis
    by (simp add: digits_value_def those_None_iff is_digit_def)
qed

lemma not_digit_46: "\<not> is_digit 46" and not_digit_44: "\<not> is_digit 44"
  by (simp_all add: is_digit_def decimal_value_def decimal_run_starts_def)

text \<open>
  A string of decimal digits and full stops is accepted by \<open>float\<close> exactly when it has
  a digit and at most one full stop.
\<close>

lemma py_float_valid_iff:
  assumes "\<forall>c\<in>set s. is_digit c \<or> c = 46"
  shows "py_float s \<noteq> None \<longleftrightarrow> (\<exists>c\<in>set s. is_digit c) \<and> count_list s 46 \<le> 1"
proof (cases "46 \<in> set s")
  case False
  then have tw: "takeWhile (\<lambda>c. c \<noteq> 46) s = s" "dropWhile (\<lambda>c. c \<noteq> 46) s = []"
    by auto
  have all: "\<forall>c\<in>set s. is_digit c"
    using assms False by auto
  have cnt: "count_list s 46 = 0"
    using False by (simp add: count_list_0_iff)
  have ne: "s \<noteq> [] \<longleftrightarrow> (\<exists>c\<in>set s. is_digit c)"
    using all by (cases s) auto
  show ?thesis
    using all ne
    by (auto simp: py_float_def Let_def tw cnt digits_value_None_iff split: option.splits)
next
  case True
  then obtain ip fp where s: "s = ip @ 46 # fp" "46 \<notin> set ip"
    by (auto dest: split_list_first)
  have tw: "takeWhile (\<lambda>c. c \<noteq> 46) s = ip" "dropWhile (\<lambda>c. c \<noteq> 46) s = 46 # fp"
    using s by (auto simp: takeWhile_tail dropWhile_append3)
  have ip: "\<forall>c\<in>set ip. is_digit c"
    using assms s by auto
  have fp: "\<forall>c\<in>set fp. is_digit c \<or> c = 46"
    using assms s by auto
  have cnt: "count_list s 46 \<le> 1 \<longleftrightarrow> 46 \<notin> set fp"
    using s by (auto simp: count_list_0_iff)
  have dig: "(\<exists>c\<in>set s. is_digit c) \<longleftrightarrow> (\<exists>c\<in>set (ip @ fp). is_digit c)"
    using s not_digit_46 by auto
  have val: "digits_value (ip @ fp) \<noteq> None \<longleftrightarrow> 46 \<notin> set fp"
    using ip fp not_digit_46 by (auto simp: digits_value_None_iff)
  have ne: "ip @ fp \<noteq> [] \<longleftrightarrow> (\<exists>c\<in>set (ip @ fp). is_digit c)" if "46 \<notin> set fp"
  proof -
    define ds where "ds = ip @ fp"
    have "\<forall>c\<in>set ds. is_digit c"
      using ip fp that by (auto simp: ds_def)
    then have "ds \<noteq> [] \<longleftrightarrow> (\<exists>c\<in>set ds. is_digit c)"
      by (cases ds) auto
    then show ?thesis
      by (simp only: ds_def)
  qed
  have "py_float s \<noteq> None \<longleftrightarrow> ip @ fp \<noteq> [] \<and> digits_value (ip @ fp) \<noteq> None"
    by (auto simp: py_float_def Let_def tw split: option.splits)
  also have "\<dots> \<longleftrightarrow> (\<exists>c\<in>set s. is_digit c) \<and> count_list s 46 \<le> 1"
    unfolding val cnt dig using ne by blast
  finally show ?thesis .
qed

lemma count_normalised:
  "46 \<notin> set a \<Longrightarrow> count_list (normalised a) 46 = count_list a 44"
  by (induction a) auto

lemma literal_valid_iff:
  assumes "\<forall>x\<in>set a. amount_class x"
  shows "py_float (normalised a) \<noteq> None \<longleftrightarrow> (\<exists>x\<in>set a. is_digit x) \<and> count_list a 44 \<le> 1"
proof -
  have sp: "is_space 32"
    by (simp add: is_space_def)
  have d32: "\<not> is_digit 32"
    using digit_not_space[OF sp] .
  have no46: "46 \<notin> set a"
    using assms not_digit_46 by (auto simp: amount_class_def)
  have chars: "\<forall>c\<in>set (normalised a). is_digit c \<or> c = 46"
    using assms by (auto simp: amount_class_def)
  have dig: "(\<exists>c\<in>set (normalised a). is_digit c) \<longleftrightarrow> (\<exists>x\<in>set a. is_digit x)"
    using d32 not_digit_44 not_digit_46 by auto
  show ?thesis
    unfolding py_float_valid_iff[OF chars] dig count_normalised[OF no46] ..
qed


subsection \<open>The claims about \<open>parse_amount\<close>\<close>

lemma amount_plus_20_93:
  "parse_amount (Some (ascii ''+ 20,93 '' @ [0x20B8]))
   = Inr (Finite (2945635631277015 / 140737488355328))"
  by (simp add: ascii_def amount_eval class_eval round_eval)

lemma amount_space_plus_20_93:
  "parse_amount (Some (ascii '' + 20,93 '' @ [0x20B8])) = Inl FormatError"
  by (simp add: ascii_def amount_eval class_eval)

lemma amount_dollar: "parse_amount (Some (ascii ''+ 20,93 $'')) = Inl CurrencyMismatch"
  by (simp add: ascii_def amount_eval class_eval)

lemma amount_two_commas:
  "parse_amount (Some (ascii ''+ 1,2,3 '' @ [0x20B8])) = Inl FloatConversionError"
  by (simp add: ascii_def amount_eval class_eval)

lemma match_two_commas:
  "re_match AMOUNT_PATTERN (split_first_line (ascii ''+ 1,2,3 '' @ [0x20B8]))
   = Some (ascii ''+'', ascii ''1,2,3'', EXPECTED_CURRENCY)"
  by (simp add: ascii_def amount_eval class_eval)

lemma takeWhile_first_line:
  "\<forall>x\<in>set xs. x \<noteq> 10 \<Longrightarrow> rest = [] \<or> hd rest = 10 \<Longrightarrow>
   takeWhile (\<lambda>x. x \<noteq> 10) (xs @ rest) = xs"
  by (cases rest) (auto simp: takeWhile_tail)

lemma first_line_cons: "c \<noteq> 10 \<Longrightarrow> split_first_line (c # X) = c # split_first_line X"
  by (simp add: split_first_line_def)

text \<open>
  Claim C5.  If the amount with a \<open>+\<close> parses to \<open>v\<close>, the same text with a \<open>-\<close>
  parses to \<open>-v\<close>, so that the first equals the negation of the second, and \<open>v\<close> is
  not negative and \<open>-v\<close> not positive; and conversely from \<open>-\<close> to \<open>+\<close>.  A parsed
  amount comes from a \<open>+\<close> and is not negative, or from a \<open>-\<close> and is not positive.
\<close>

theorem parse_amount_sign:
  "(parse_amount (Some (43 # X)) = Inr v \<longrightarrow>
      parse_amount (Some (45 # X)) = Inr (float_neg v)
      \<and> float_eq v (float_neg (float_neg v)) \<and> float_ge0 v \<and> float_le0 (float_neg v))
   \<and> (parse_amount (Some (45 # X)) = Inr u \<longrightarrow>
      parse_amount (Some (43 # X)) = Inr (float_neg u) \<and> float_le0 u)
   \<and> (parse_amount (Some (c # X)) = Inr z \<longrightarrow>
      (c = 43 \<and> float_ge0 z) \<or> (c = 45 \<and> float_le0 z))"
proof -
  have key: "\<exists>w a v0. amount_shape (d # split_first_line X) d w a EXPECTED_CURRENCY
               \<and> (d = 43 \<or> d = 45)
               \<and> py_float (normalised a) = Some v0
               \<and> y = (if d = 43 then v0 else float_neg v0)"
    if "parse_amount (Some (d # X)) = Inr y" for d y
  proof -
    from parse_amount_success[OF that] obtain c' w a v0 where
      sh: "amount_shape (split_first_line (d # X)) c' w a EXPECTED_CURRENCY"
      and v0: "py_float (normalised a) = Some v0" "y = (if c' = 43 then v0 else float_neg v0)"
      by blast
    have "d \<noteq> 10"
    proof
      assume "d = 10"
      then have "split_first_line (d # X) = []"
        by (simp add: split_first_line_def)
      with sh show False by (simp add: amount_shape_def)
    qed
    then have fl: "split_first_line (d # X) = d # split_first_line X"
      by (rule first_line_cons)
    from sh have "c' = d" "d = 43 \<or> d = 45"
      unfolding fl by (auto simp: amount_shape_def)
    with sh v0 show ?thesis
      unfolding fl by blast
  qed
  have other: "parse_amount (Some (e # X)) = Inr (if e = 43 then v0 else float_neg v0)"
    if "amount_shape (d # split_first_line X) d w a EXPECTED_CURRENCY"
      and "py_float (normalised a) = Some v0" and "e = 43 \<or> e = 45" for d e w a v0
  proof -
    have "split_first_line (e # X) = e # split_first_line X"
      using that(3) by (intro first_line_cons) auto
    then have "amount_shape (split_first_line (e # X)) e w a EXPECTED_CURRENCY"
      using that(1,3) by (auto simp: amount_shape_def)
    from parse_amount_shape[OF this] that(2) show ?thesis by simp
  qed
  show ?thesis
  proof (intro conjI impI)
    assume "parse_amount (Some (43 # X)) = Inr v"
    from key[OF this] obtain w a v0 where
      k: "amount_shape (43 # split_first_line X) 43 w a EXPECTED_CURRENCY"
         "py_float (normalised a) = Some v0" "v = v0"
      by auto
    from py_float_nonneg[OF k(2)] have ge: "float_ge0 v"
      by (simp add: k(3))
    show "parse_amount (Some (45 # X)) = Inr (float_neg v)"
      using other[OF k(1,2), of 45] k(3) by simp
    show "float_eq v (float_neg (float_neg v))" "float_ge0 v" "float_le0 (float_neg v)"
      using ge float_ge0_neg[OF ge] by auto
  next
    assume "parse_amount (Some (45 # X)) = Inr u"
    from key[OF this] obtain w a v0 where
      k: "amount_shape (45 # split_first_line X) 45 w a EXPECTED_CURRENCY"
         "py_float (normalised a) = Some v0" "u = float_neg v0"
      by auto
    show "parse_amount (Some (43 # X)) = Inr (float_neg u)"
      using other[OF k(1,2), of 43] k(3) by (simp add: float_neg_neg)
    show "float_le0 u"
      using float_ge0_neg[OF py_float_nonneg[OF k(2)]] k(3) by simp
  next
    assume "parse_amount (Some (c # X)) = Inr z"
    from key[OF this] obtain a v0 where
      k: "c = 43 \<or> c = 45" "py_float (normalised a) = Some v0"
         "z = (if c = 43 then v0 else float_neg v0)"
      by auto
    from py_float_nonneg[OF k(2)] float_ge0_neg[OF py_float_nonneg[OF k(2)]] k(1,3)
    show "(c = 43 \<and> float_ge0 z) \<or> (c = 45 \<and> float_le0 z)"
      by auto
  qed
qed

theorem parse_amount_sign_witness:
  "parse_amount (Some (ascii ''- 20,93 '' @ [0x20B8]))
   = Inr (Finite (- (2945635631277015 / 140737488355328)))
   \<and> float_ge0 (Finite (2945635631277015 / 140737488355328))"
proof -
  have p: "parse_amount (Some (43 # ascii '' 20,93 '' @ [0x20B8]))
           = Inr (Finite (2945635631277015 / 140737488355328))"
    using amount_plus_20_93 by (simp add: ascii_def)
  have "parse_amount (Some (43 # ascii '' 20,93 '' @ [0x20B8]))
           = Inr (Finite (2945635631277015 / 140737488355328)) \<longrightarrow>
      parse_amount (Some (45 # ascii '' 20,93 '' @ [0x20B8]))
        = Inr (float_neg (Finite (2945635631277015 / 140737488355328)))
      \<and> float_eq (Finite (2945635631277015 / 140737488355328))
          (float_neg (float_neg (Finite (2945635631277015 / 140737488355328))))
      \<and> float_ge0 (Finite (2945635631277015 / 140737488355328))
      \<and> float_le0 (float_neg (Finite (2945635631277015 / 140737488355328)))"
    using parse_amount_sign
      [of "ascii '' 20,93 '' @ [0x20B8]" "Finite (2945635631277015 / 140737488355328)"
          "Finite 0" 43 "Finite 0"]
    by (elim conjE)
  with p show ?thesis
    by (simp add: ascii_def)
qed

text \<open>
  Claim C6 fails as stated: the line \<open>+ 1,2,3 \<close> followed by the tenge sign matches the
  pattern and has the expected currency, but \<open>float("1.2.3")\<close> raises, so no number
  is returned.
\<close>

theorem parse_amount_failures_counterexample:
  "re_match AMOUNT_PATTERN (split_first_line (ascii ''+ 1,2,3 '' @ [0x20B8]))
     = Some (ascii ''+'', ascii ''1,2,3'', EXPECTED_CURRENCY)
   \<and> parse_amount (Some (ascii ''+ 1,2,3 '' @ [0x20B8])) = Inl FloatConversionError"
  using match_two_commas amount_two_commas by simp

text \<open>
  Claim C6, amended.  \<open>parse_amount\<close> on a string fails with the format error exactly
  when the first line has not the shape of the pattern; with the currency error exactly
  when it has the shape and the currency token is not the expected symbol; with the
  conversion error of \<open>float\<close> exactly when it has the shape and the expected currency but
  the literal has no digit or more than one comma; and it returns a number exactly in the
  remaining case.  \<open>garbage\<close> gives the format error and \<open>+ 20,93 $\<close> the currency
  error.
\<close>

theorem parse_amount_failures:
  "(parse_amount (Some s) = Inl FormatError \<longleftrightarrow>
      \<not> (\<exists>c w a cur. amount_shape (split_first_line s) c w a cur))
   \<and> (parse_amount (Some s) = Inl CurrencyMismatch \<longleftrightarrow>
      (\<exists>c w a cur. amount_shape (split_first_line s) c w a cur \<and> cur \<noteq> EXPECTED_CURRENCY))
   \<and> (parse_amount (Some s) = Inl FloatConversionError \<longleftrightarrow>
      (\<exists>c w a. amount_shape (split_first_line s) c w a EXPECTED_CURRENCY
         \<and> \<not> ((\<exists>x\<in>set a. is_digit x) \<and> count_list a 44 \<le> 1)))
   \<and> ((\<exists>v. parse_amount (Some s) = Inr v) \<longleftrightarrow>
      (\<exists>c w a. amount_shape (split_first_line s) c w a EXPECTED_CURRENCY
         \<and> (\<exists>x\<in>set a. is_digit x) \<and> count_list a 44 \<le> 1))
   \<and> parse_amount (Some (ascii ''garbage'')) = Inl FormatError
   \<and> parse_amount (Some (ascii ''+ 20,93 $'')) = Inl CurrencyMismatch"
proof -
  have valid: "py_float (normalised a) \<noteq> None \<longleftrightarrow>
                 (\<exists>x\<in>set a. is_digit x) \<and> count_list a 44 \<le> 1"
    if "amount_shape (split_first_line s) c w a cur" for c w a cur
    using that by (intro literal_valid_iff) (simp add: amount_shape_def)
  show ?thesis
  proof (cases "\<exists>c w a cur. amount_shape (split_first_line s) c w a cur")
    case False
    then have fe: "parse_amount (Some s) = Inl FormatError"
      by (simp add: parse_amount_format_error)
    from False show ?thesis
      by (auto simp: fe amount_garbage amount_dollar)
  next
    case True
    then obtain c w a cur where sh: "amount_shape (split_first_line s) c w a cur"
      by blast
    have uniq: "cur' = cur \<and> normalised a' = normalised a
                \<and> (py_float (normalised a') \<noteq> None \<longleftrightarrow> py_float (normalised a) \<noteq> None)"
      if "amount_shape (split_first_line s) c' w' a' cur'" for c' w' a' cur'
    proof -
      have m1: "(([c], a, cur), []) \<in> set (AMOUNT_PATTERN (split_first_line s))"
        using sh unfolding AMOUNT_PATTERN_iff by (auto simp: amount_shape_def dollar_def)
      have m2: "(([c'], a', cur'), []) \<in> set (AMOUNT_PATTERN (split_first_line s))"
        using that unfolding AMOUNT_PATTERN_iff by (auto simp: amount_shape_def dollar_def)
      from match_unique[OF m2 m1 first_line_no_newline] show ?thesis by simp
    qed
    have v: "py_float (normalised a) \<noteq> None \<longleftrightarrow>
               (\<exists>x\<in>set a. is_digit x) \<and> count_list a 44 \<le> 1"
      by (rule valid[OF sh])
    have nfe: "parse_amount (Some s) \<noteq> Inl FormatError"
      using True by (simp add: parse_amount_format_error)
    note pa = parse_amount_shape[OF sh]
    have 1: "parse_amount (Some s) = Inl FormatError \<longleftrightarrow>
      \<not> (\<exists>c w a cur. amount_shape (split_first_line s) c w a cur)"
      using True nfe by simp
    have 2: "parse_amount (Some s) = Inl CurrencyMismatch \<longleftrightarrow>
      (\<exists>c w a cur. amount_shape (split_first_line s) c w a cur \<and> cur \<noteq> EXPECTED_CURRENCY)"
    proof
      assume "parse_amount (Some s) = Inl CurrencyMismatch"
      with pa have "cur \<noteq> EXPECTED_CURRENCY"
        by (auto split: if_splits option.splits)
      with sh show "\<exists>c w a cur. amount_shape (split_first_line s) c w a cur
                      \<and> cur \<noteq> EXPECTED_CURRENCY"
        by blast
    next
      assume "\<exists>c w a cur. amount_shape (split_first_line s) c w a cur
                \<and> cur \<noteq> EXPECTED_CURRENCY"
      then obtain c' w' a' cur' where
        "amount_shape (split_first_line s) c' w' a' cur'" "cur' \<noteq> EXPECTED_CURRENCY"
        by blast
      from parse_amount_shape[OF this(1)] this(2)
      show "parse_amount (Some s) = Inl CurrencyMismatch" by simp
    qed
    have 3: "parse_amount (Some s) = Inl FloatConversionError \<longleftrightarrow>
      (\<exists>c w a. amount_shape (split_first_line s) c w a EXPECTED_CURRENCY
         \<and> \<not> ((\<exists>x\<in>set a. is_digit x) \<and> count_list a 44 \<le> 1))"
    proof
      assume "parse_amount (Some s) = Inl FloatConversionError"
      with pa have "cur = EXPECTED_CURRENCY" "py_float (normalised a) = None"
        by (auto split: if_splits option.splits)
      with sh v show "\<exists>c w a. amount_shape (split_first_line s) c w a EXPECTED_CURRENCY
         \<and> \<not> ((\<exists>x\<in>set a. is_digit x) \<and> count_list a 44 \<le> 1)"
        by blast
    next
      assume "\<exists>c w a. amount_shape (split_first_line s) c w a EXPECTED_CURRENCY
         \<and> \<not> ((\<exists>x\<in>set a. is_digit x) \<and> count_list a 44 \<le> 1)"
      then obtain c' w' a' where
        s': "amount_shape (split_first_line s) c' w' a' EXPECTED_CURRENCY"
        and "\<not> ((\<exists>x\<in>set a'. is_digit x) \<and> count_list a' 44 \<le> 1)"
        by blast
      then have "py_float (normalised a') = None"
        using valid[OF s'] by blast
      with parse_amount_shape[OF s']
      show "parse_amount (Some s) = Inl FloatConversionError" by simp
    qed
    have 4: "(\<exists>v. parse_amount (Some s) = Inr v) \<longleftrightarrow>
      (\<exists>c w a. amount_shape (split_first_line s) c w a EXPECTED_CURRENCY
         \<and> (\<exists>x\<in>set a. is_digit x) \<and> count_list a 44 \<le> 1)"
    proof
      assume "\<exists>v. parse_amount (Some s) = Inr v"
      with pa have "cur = EXPECTED_CURRENCY" "py_float (normalised a) \<noteq> None"
        by (auto split: if_splits option.splits)
      with sh v show "\<exists>c w a. amount_shape (split_first_line s) c w a EXPECTED_CURRENCY
         \<and> (\<exists>x\<in>set a. is_digit x) \<and> count_list a 44 \<le> 1"
        by blast
    next
      assume "\<exists>c w a. amount_shape (split_first_line s) c w a EXPECTED_CURRENCY
         \<and> (\<exists>x\<in>set a. is_digit x) \<and> count_list a 44 \<le> 1"
      then obtain c' w' a' where
        s': "amount_shape (split_first_line s) c' w' a' EXPECTED_CURRENCY"
        and "(\<exists>x\<in>set a'. is_digit x) \<and> count_list a' 44 \<le> 1"
        by blast
      then have "py_float (normalised a') \<noteq> None"
        using valid[OF s'] by blast
      with parse_amount_shape[OF s']
      show "\<exists>v. parse_amount (Some s) = Inr v" by auto
    qed
    from 1 2 3 4 amount_garbage amount_dollar show ?thesis
      by (intro conjI)
  qed
qed

theorem parse_amount_failures_witness:
  "\<exists>v. parse_amount (Some (ascii ''+ 20,93 '' @ [0x20B8])) = Inr v"
proof -
  let ?s = "ascii ''+ 20,93 '' @ [0x20B8]"
  have sh: "amount_shape (split_first_line ?s) 43 [32] (ascii ''20,93'') EXPECTED_CURRENCY"
    by (simp add: amount_shape_def split_first_line_def ascii_def EXPECTED_CURRENCY_def
          class_eval)
  have d: "(\<exists>x\<in>set (ascii ''20,93''). is_digit x) \<and> count_list (ascii ''20,93'') 44 \<le> 1"
    by (simp add: ascii_def class_eval)
  have "(\<exists>v. parse_amount (Some ?s) = Inr v) \<longleftrightarrow>
      (\<exists>c w a. amount_shape (split_first_line ?s) c w a EXPECTED_CURRENCY
         \<and> (\<exists>x\<in>set a. is_digit x) \<and> count_list a 44 \<le> 1)"
    using parse_amount_failures[of ?s] by (elim conjE)
  with sh d show ?thesis by blast
qed

text \<open>
  Claim C8 fails as stated: the pattern starts with the sign, so a line that starts with
  white space does not match; the same line without the leading space parses.
\<close>

theorem leading_whitespace_counterexample:
  "parse_amount (Some (ascii '' + 20,93 '' @ [0x20B8])) = Inl FormatError
   \<and> parse_amount (Some (ascii ''+ 20,93 '' @ [0x20B8]))
     = Inr (Finite (2945635631277015 / 140737488355328))"
  using amount_space_plus_20_93 amount_plus_20_93 by simp

text \<open>
  Claim C8, amended.  For every string whose first line consists of a sign, optional white
  space, a literal of digits, spaces and commas with at least one digit and at most one
  comma, a single space and the expected currency symbol, \<open>parse_amount\<close> returns the
  float of the literal (spaces removed, the comma read as the decimal point), negated for
  the sign \<open>-\<close>.  A string that begins with a white space character fails with the
  format error.
\<close>

theorem parse_amount_accepts:
  assumes "c = 43 \<or> c = 45"
    and "\<forall>x\<in>set w. is_space x \<and> x \<noteq> 10"
    and "\<forall>x\<in>set a. amount_class x"
    and "\<exists>x\<in>set a. is_digit x" and "count_list a 44 \<le> 1"
    and "rest = [] \<or> hd rest = 10"
  shows "(\<exists>v. py_float (normalised a) = Some v
            \<and> parse_amount (Some (c # w @ a @ [32] @ EXPECTED_CURRENCY @ rest))
              = Inr (if c = 43 then v else float_neg v))
         \<and> (\<forall>x s. is_space x \<longrightarrow> parse_amount (Some (x # s)) = Inl FormatError)"
proof
  have cur: "EXPECTED_CURRENCY \<noteq> []" "\<forall>x\<in>set EXPECTED_CURRENCY. \<not> is_space x"
    "10 \<notin> set EXPECTED_CURRENCY"
    by (simp_all add: EXPECTED_CURRENCY_def is_space_def)
  have a10: "\<forall>x\<in>set a. x \<noteq> 10"
    using assms(3) amount_class_not_newline by blast
  have "\<forall>x\<in>set (c # w @ a @ [32] @ EXPECTED_CURRENCY). x \<noteq> 10"
    using assms(1,2) a10 cur(3) by auto
  from takeWhile_first_line[OF this assms(6)]
  have fl: "split_first_line (c # w @ a @ [32] @ EXPECTED_CURRENCY @ rest)
             = c # w @ a @ [32] @ EXPECTED_CURRENCY"
    by (simp add: split_first_line_def)
  have ne: "a \<noteq> []"
    using assms(4) by auto
  have sh: "amount_shape (split_first_line (c # w @ a @ [32] @ EXPECTED_CURRENCY @ rest))
              c w a EXPECTED_CURRENCY"
    unfolding fl using assms(1,2,3) ne cur by (simp add: amount_shape_def)
  have "py_float (normalised a) \<noteq> None"
    using literal_valid_iff[OF assms(3)] assms(4,5) by blast
  then obtain v where v: "py_float (normalised a) = Some v"
    by auto
  from parse_amount_shape[OF sh] v
  show "\<exists>v. py_float (normalised a) = Some v
            \<and> parse_amount (Some (c # w @ a @ [32] @ EXPECTED_CURRENCY @ rest))
              = Inr (if c = 43 then v else float_neg v)"
    by simp
next
  show "\<forall>x s. is_space x \<longrightarrow> parse_amount (Some (x # s)) = Inl FormatError"
  proof (intro allI impI)
    fix x s
    assume sp: "is_space x"
    have "\<not> amount_shape (split_first_line (x # s)) c' w' a' cur'" for c' w' a' cur'
    proof (cases "x = 10")
      case True
      then show ?thesis
        by (simp add: split_first_line_def amount_shape_def)
    next
      case False
      from sp have "x \<noteq> 43" "x \<noteq> 45"
        by (auto simp: is_space_def)
      with False show ?thesis
        by (auto simp: split_first_line_def amount_shape_def)
    qed
    then show "parse_amount (Some (x # s)) = Inl FormatError"
      unfolding parse_amount_format_error by blast
  qed
qed

theorem parse_amount_accepts_witness:
  "parse_amount (Some (ascii ''+  20,93 '' @ [0x20B8, 10] @ ascii ''second line''))
   = Inr (Finite (2945635631277015 / 140737488355328))"
proof -
  have h: "(43::nat) = 43 \<or> (43::nat) = 45"
    "\<forall>x\<in>set [32, 32]. is_space x \<and> x \<noteq> 10"
    "\<forall>x\<in>set (ascii ''20,93''). amount_class x"
    "\<exists>x\<in>set (ascii ''20,93''). is_digit x"
    "count_list (ascii ''20,93'') 44 \<le> 1"
    "10 # ascii ''second line'' = [] \<or> hd (10 # ascii ''second line'') = 10"
    by (simp_all add: ascii_def class_eval)
  have v: "py_float (normalised (ascii ''20,93''))
           = Some (Finite (2945635631277015 / 140737488355328))"
    by (simp add: ascii_def py_float_def digits_value_def class_eval round_eval)
  have "\<exists>v. py_float (normalised (ascii ''20,93'')) = Some v
            \<and> parse_amount (Some (43 # [32, 32] @ ascii ''20,93'' @ [32] @ EXPECTED_CURRENCY
                                    @ 10 # ascii ''second line''))
              = Inr (if (43::nat) = 43 then v else float_neg v)"
    using parse_amount_accepts[OF h] by (elim conjE)
  with v show ?thesis
    by (simp add: ascii_def EXPECTED_CURRENCY_def)
qed

section \<open>The rounding model\<close>

lemma pow2_le_of_int: "(2::int) ^ m \<le> n \<Longrightarrow> (2::rat) ^ m \<le> of_int n"
  by (metis of_int_le_iff of_int_numeral of_int_power)

lemma of_int_le_pow2: "n \<le> (2::int) ^ m \<Longrightarrow> rat_of_int n \<le> 2 ^ m"
  by (metis of_int_le_iff of_int_numeral of_int_power)

text \<open>\<open>floor_log2\<close> is the binary exponent of a positive rational number.\<close>

lemma floor_log2_bounds:
  assumes "0 < q"
  shows "pow2 (floor_log2 q) \<le> q \<and> q < pow2 (floor_log2 q + 1)"
proof (cases "1 \<le> q")
  case True
  define n where "n = \<lfloor>q\<rfloor>"
  have n: "1 \<le> n" "of_int n \<le> q" "q < of_int n + 1"
    using True unfolding n_def by linarith+
  have b: "2 ^ nat (bitlen n - 1) \<le> n" "n < 2 ^ nat (bitlen n)"
    using bitlen_bounds[of n] n(1) by simp_all
  have b1: "1 \<le> bitlen n"
    using bitlen_ge_iff_power[of 1 n] n(1) by simp
  have e: "floor_log2 q = bitlen n - 1"
    using True by (simp add: floor_log2_def n_def)
  have "(2::rat) ^ nat (bitlen n - 1) \<le> q"
    using pow2_le_of_int[OF b(1)] n(2) by linarith
  then have lo: "pow2 (bitlen n - 1) \<le> q"
    using b1 by (simp add: pow2_def)
  have "n + 1 \<le> 2 ^ nat (bitlen n)"
    using b(2) by simp
  from of_int_le_pow2[OF this] have "q < 2 ^ nat (bitlen n)"
    using n(3) by simp
  then have hi: "q < pow2 (bitlen n)"
    using b1 by (simp add: pow2_def)
  show ?thesis
    using lo hi by (simp add: e)
next
  case False
  define c where "c = \<lceil>1 / q\<rceil>"
  have q1: "1 < 1 / q"
    using assms False by simp
  have c: "2 \<le> c" "1 / q \<le> of_int c" "of_int c - 1 < 1 / q"
    using q1 unfolding c_def by linarith+
  define k where "k = bitlen (c - 1)"
  have b: "2 ^ nat (k - 1) \<le> c - 1" "c - 1 < 2 ^ nat k"
    using bitlen_bounds[of "c - 1"] c(1) by (simp_all add: k_def)
  have k1: "1 \<le> k"
    using bitlen_ge_iff_power[of 1 "c - 1"] c(1) by (simp add: k_def)
  have e: "floor_log2 q = - k"
    using False by (simp add: floor_log2_def c_def k_def)
  have "c \<le> 2 ^ nat k"
    using b(2) by simp
  from of_int_le_pow2[OF this] have "1 / q \<le> 2 ^ nat k"
    using c(2) by linarith
  then have "1 / 2 ^ nat k \<le> q"
    using assms by (simp add: field_simps)
  then have lo: "pow2 (- k) \<le> q"
    using k1 by (simp add: pow2_def)
  have "(2::rat) ^ nat (k - 1) < 1 / q"
    using pow2_le_of_int[OF b(1)] c(3) by simp
  then have lt: "q < 1 / 2 ^ nat (k - 1)"
    using assms by (simp add: field_simps)
  have hi: "q < pow2 (- k + 1)"
  proof (cases "k = 1")
    case True
    with lt show ?thesis by (simp add: pow2_def)
  next
    case False
    then have "nat (- (- k + 1)) = nat (k - 1)" "\<not> 0 \<le> - k + 1"
      using k1 by auto
    with lt show ?thesis by (simp add: pow2_def)
  qed
  show ?thesis
    using lo hi by (simp add: e)
qed

text \<open>
  A finite result of the rounding is within half a unit in the last place of its argument.
\<close>

lemma round_to_double_error:
  assumes "round_to_double q = Finite r" and "q \<noteq> 0"
  shows "\<bar>r - q\<bar> \<le> pow2 (max (floor_log2 \<bar>q\<bar> - 52) (- 1074)) / 2"
proof -
  define p where "p = pow2 (max (floor_log2 \<bar>q\<bar> - 52) (- 1074))"
  define m where "m = round_half_even (\<bar>q\<bar> / p)"
  have p: "0 < p"
    by (simp add: p_def pow2_pos)
  have r: "r = (if 0 < q then of_int m * p else - (of_int m * p))"
    using assms by (auto simp: round_to_double_def Let_def p_def m_def split: if_splits)
  have "\<bar>\<bar>q\<bar> / p - of_int m\<bar> \<le> 1 / 2"
    using round_half_even_nearest[of "\<bar>q\<bar> / p"] by (simp add: m_def)
  then have "\<bar>\<bar>q\<bar> / p - of_int m\<bar> * p \<le> 1 / 2 * p"
    using p by (intro mult_right_mono) auto
  moreover have "\<bar>\<bar>q\<bar> / p - of_int m\<bar> * p = \<bar>\<bar>q\<bar> - of_int m * p\<bar>"
  proof -
    have "\<bar>\<bar>q\<bar> / p - of_int m\<bar> * p = \<bar>(\<bar>q\<bar> / p - of_int m) * p\<bar>"
      using p by (simp add: abs_mult)
    also have "(\<bar>q\<bar> / p - of_int m) * p = \<bar>q\<bar> - of_int m * p"
      using p by (simp add: field_simps)
    finally show ?thesis .
  qed
  ultimately have "\<bar>\<bar>q\<bar> - of_int m * p\<bar> \<le> p / 2"
    by simp
  then have "\<bar>r - q\<bar> \<le> p / 2"
  proof (cases "0 < q")
    case True
    then have "r - q = - (\<bar>q\<bar> - of_int m * p)"
      by (simp add: r)
    with \<open>\<bar>\<bar>q\<bar> - of_int m * p\<bar> \<le> p / 2\<close> show ?thesis
      by (simp only: abs_minus)
  next
    case False
    then have "r - q = \<bar>q\<bar> - of_int m * p"
      by (simp add: r)
    with \<open>\<bar>\<bar>q\<bar> - of_int m * p\<bar> \<le> p / 2\<close> show ?thesis
      by simp
  qed
  then show ?thesis
    by (simp add: p_def)
qed


end
